theory Spec2Isabelle
  imports Complex_Main "HOL-Library.Signed_Division" "HOL-Library.Multiset"
begin

section \<open>Grid and iteration over grid points\<close>

text \<open>
  The part of \<open>IceGrid\<close> that the iterators read: the owned patch of the process
  (\<open>xs\<close>, \<open>xm\<close>, \<open>ys\<close>, \<open>ym\<close>), and the global sizes and the periodicity of the grid,
  which the iterators do not read. Indices are modelled by unbounded integers: the
  indices of a grid that fits in memory are far from the bounds of \<open>int\<close>. The
  constructor subtracts the unsigned stencil width from \<open>xs\<close> in unsigned arithmetic
  and converts the result back to \<open>int\<close>, which gives the same number as the signed
  subtraction written here.
\<close>

datatype Periodicity = NOT_PERIODIC | X_PERIODIC | Y_PERIODIC | XY_PERIODIC

record IceGrid =
  g_xs :: int
  g_xm :: int
  g_ys :: int
  g_ym :: int
  g_Mx :: int
  g_My :: int
  g_periodicity :: Periodicity

text \<open>The class \<open>PointsWithGhosts\<close> and its constructor; \<open>Points\<close> is the same with stencil width 0.\<close>

record PointsWithGhosts =
  m_i :: int
  m_j :: int
  m_i_first :: int
  m_i_last :: int
  m_j_first :: int
  m_j_last :: int
  m_done :: bool

definition PointsWithGhosts_new :: "IceGrid \<Rightarrow> nat \<Rightarrow> PointsWithGhosts" where
  "PointsWithGhosts_new g stencil_width =
     \<lparr> m_i = g_xs g - int stencil_width,
       m_j = g_ys g - int stencil_width,
       m_i_first = g_xs g - int stencil_width,
       m_i_last = g_xs g + g_xm g + int stencil_width - 1,
       m_j_first = g_ys g - int stencil_width,
       m_j_last = g_ys g + g_ym g + int stencil_width - 1,
       m_done = False \<rparr>"

definition Points_new :: "IceGrid \<Rightarrow> PointsWithGhosts" where
  "Points_new g = PointsWithGhosts_new g 0"

text \<open>\<open>PointsWithGhosts::next\<close>. It asserts that the iteration is not done.\<close>

definition next_point :: "PointsWithGhosts \<Rightarrow> PointsWithGhosts option" where
  "next_point p =
     (if m_done p then None
      else
        (let p1 = p \<lparr> m_j := m_j p + 1 \<rparr>;
             p2 = (if m_j p1 > m_j_last p1
                   then p1 \<lparr> m_j := m_j_first p1, m_i := m_i p1 + 1 \<rparr>
                   else p1);
             p3 = (if m_i p2 > m_i_last p2
                   then p2 \<lparr> m_i := m_i_first p2, m_done := True \<rparr>
                   else p2)
         in Some p3))"

text \<open>
  The loop \<open>for (PointsWithGhosts p(grid, w); p; p.next()) { ... }\<close>: the list of the
  pairs \<open>(p.i(), p.j())\<close> that the body sees, in order. The loop terminates from every
  state of the iterator.
\<close>

function traverse :: "PointsWithGhosts \<Rightarrow> (int \<times> int) list" where
  "traverse p =
     (if m_done p then []
      else (m_i p, m_j p) #
           (case next_point p of None \<Rightarrow> [] | Some p' \<Rightarrow> traverse p'))"
  by pat_completeness auto
termination
proof (relation "measure (\<lambda>p. if m_done p then 0
      else 1 + nat (m_i_last p - m_i p) * (nat (m_j_last p - m_j_first p) + 1)
             + nat (m_j_last p - m_j p))")
  show "wf (measure (\<lambda>p. if m_done p then 0
      else 1 + nat (m_i_last p - m_i p) * (nat (m_j_last p - m_j_first p) + 1)
             + nat (m_j_last p - m_j p)))"
    by simp
next
  fix p p'
  assume nd: "\<not> m_done p" and nx: "next_point p = Some p'"
  define W where "W = nat (m_j_last p - m_j_first p) + 1"
  consider (row) "m_j p + 1 \<le> m_j_last p" "m_i p \<le> m_i_last p"
    | (rowdone) "m_j p + 1 \<le> m_j_last p" "m_i p > m_i_last p"
    | (wrap) "m_j p + 1 > m_j_last p" "m_i p + 1 \<le> m_i_last p"
    | (fin) "m_j p + 1 > m_j_last p" "m_i p + 1 > m_i_last p"
    by linarith
  then show "(p', p) \<in> measure (\<lambda>p. if m_done p then 0
      else 1 + nat (m_i_last p - m_i p) * (nat (m_j_last p - m_j_first p) + 1)
             + nat (m_j_last p - m_j p))"
  proof cases
    case row
    then show ?thesis using nd nx by (auto simp: next_point_def Let_def)
  next
    case rowdone
    then show ?thesis using nd nx by (auto simp: next_point_def Let_def)
  next
    case wrap
    have "nat (m_i_last p - m_i p) = Suc (nat (m_i_last p - (m_i p + 1)))"
      using wrap by simp
    then show ?thesis using nd nx wrap by (auto simp: next_point_def Let_def)
  next
    case fin
    then show ?thesis using nd nx by (auto simp: next_point_def Let_def)
  qed
qed

definition PointsWithGhosts_loop :: "IceGrid \<Rightarrow> nat \<Rightarrow> (int \<times> int) list" where
  "PointsWithGhosts_loop g stencil_width = traverse (PointsWithGhosts_new g stencil_width)"

definition Points_loop :: "IceGrid \<Rightarrow> (int \<times> int) list" where
  "Points_loop g = traverse (Points_new g)"

text \<open>
  The double loop that the documentation of \<open>IceGrid\<close> gives for a point-wise
  computation on the patch of a process,
  \<open>for (int i=grid.xs; i<grid.xs+grid.xm; ++i) { for (int j=grid.ys; j<grid.ys+grid.ym; ++j) { ... } }\<close>,
  and of which the loop over \<open>Points\<close> is documented as the form that iterates over the
  points without ghosts.
\<close>

definition double_loop :: "IceGrid \<Rightarrow> (int \<times> int) list" where
  "double_loop g =
     concat (map (\<lambda>i. map (\<lambda>j. (i, j)) [g_ys g .. g_ys g + g_ym g - 1])
                 [g_xs g .. g_xs g + g_xm g - 1])"

text \<open>
  The index pairs owned by a process, and ownership ranges of several processes that
  are pairwise disjoint.
\<close>

definition owned :: "IceGrid \<Rightarrow> (int \<times> int) set" where
  "owned g = {g_xs g ..< g_xs g + g_xm g} \<times> {g_ys g ..< g_ys g + g_ym g}"

fun disjoint_ranges :: "IceGrid list \<Rightarrow> bool" where
  "disjoint_ranges [] = True"
| "disjoint_ranges (g # gs) = ((\<forall>h \<in> set gs. owned g \<inter> owned h = {}) \<and> disjoint_ranges gs)"

section \<open>Finite-element kernel: reference shape functions\<close>

text \<open>
  The C++ type \<open>double\<close> is modelled by \<open>real\<close>: the statements below are about the
  formulas the code evaluates, in exact arithmetic.

  \<open>QuadPoint\<close> and \<open>Germ\<close> are the structs of the FEM tools: a point of the reference
  element, and the value and the two partial derivatives of a shape function.
\<close>

record QuadPoint =
  pt_xi :: real
  pt_eta :: real

record Germ =
  val :: real
  g_dx :: real
  g_dy :: real

text \<open>Coordinates of the nodes of the Q1 reference element (\<open>q1::xi\<close>, \<open>q1::eta\<close>).\<close>

definition q1_n_chi :: nat where
  "q1_n_chi = 4"

definition q1_xi :: "real list" where
  "q1_xi = [-1, 1, 1, -1]"

definition q1_eta :: "real list" where
  "q1_eta = [-1, -1, 1, 1]"

text \<open>
  \<open>q1::chi\<close>. The source asserts \<open>k < q1::n_chi\<close>; a failed assertion is the value
  \<open>None\<close>.
\<close>

definition q1_chi :: "nat \<Rightarrow> QuadPoint \<Rightarrow> Germ option" where
  "q1_chi k pt =
     (if k < q1_n_chi then
        Some \<lparr> val = 0.25 * (1 + q1_xi ! k * pt_xi pt) * (1 + q1_eta ! k * pt_eta pt),
               g_dx = 0.25 * q1_xi ! k * (1 + q1_eta ! k * pt_eta pt),
               g_dy = 0.25 * q1_eta ! k * (1 + q1_xi ! k * pt_xi pt) \<rparr>
      else None)"

text \<open>
  \<open>p1::chi\<close>: the three P1 basis functions on the reference triangle and the dummy
  fourth one. The source asserts \<open>k < q1::n_chi\<close>; the \<open>switch\<close> sends \<open>3\<close> (and the
  default) to the dummy function.
\<close>

definition p1_chi :: "nat \<Rightarrow> QuadPoint \<Rightarrow> Germ option" where
  "p1_chi k pt =
     (if k < q1_n_chi then
        Some (if k = 0 then \<lparr> val = 1 - pt_xi pt - pt_eta pt, g_dx = -1, g_dy = -1 \<rparr>
              else if k = 1 then \<lparr> val = pt_xi pt, g_dx = 1, g_dy = 0 \<rparr>
              else if k = 2 then \<lparr> val = pt_eta pt, g_dx = 0, g_dy = 1 \<rparr>
              else \<lparr> val = 0, g_dx = 0, g_dy = 0 \<rparr>)
      else None)"

subsection \<open>Quadrature rules\<close>

text \<open>A two by two matrix \<open>double J[2][2]\<close>; \<open>mrc\<close> is the entry \<open>J[r][c]\<close>.\<close>

record Mat2 =
  m00 :: real
  m01 :: real
  m10 :: real
  m11 :: real

text \<open>\<open>determinant\<close>, \<open>multiply\<close> (on germs) and \<open>invert\<close>; \<open>invert\<close> asserts that the
  determinant is not zero.\<close>

definition determinant :: "Mat2 \<Rightarrow> real" where
  "determinant J = m00 J * m11 J - m10 J * m01 J"

definition multiply_germ :: "Mat2 \<Rightarrow> Germ \<Rightarrow> Germ" where
  "multiply_germ A v =
     \<lparr> val = val v,
       g_dx = g_dx v * m00 A + g_dy v * m01 A,
       g_dy = g_dx v * m10 A + g_dy v * m11 A \<rparr>"

definition invert :: "Mat2 \<Rightarrow> Mat2 option" where
  "invert A =
     (let det_A = determinant A
      in if det_A = 0 then None
         else Some \<lparr> m00 = m11 A / det_A, m01 = - m01 A / det_A,
                     m10 = - m10 A / det_A, m11 = m00 A / det_A \<rparr>)"

text \<open>
  The class \<open>Quadrature\<close>: the number of points, the Jacobian of the map from the
  reference element to the physical one (not set by the base constructor, hence an
  option), the weights and, per quadrature point, the germs of the shape functions.
\<close>

record Quadrature =
  m_Nq :: nat
  m_J :: "Mat2 option"
  m_W :: "real list"
  m_germs :: "Germ list list"

definition Quadrature_new :: "nat \<Rightarrow> Quadrature" where
  "Quadrature_new N = \<lparr> m_Nq = N, m_J = None, m_W = [], m_germs = [] \<rparr>"

definition UniformQxQuadrature :: "nat \<Rightarrow> real \<Rightarrow> real \<Rightarrow> real \<Rightarrow> Quadrature" where
  "UniformQxQuadrature sz dx dy scaling =
     (Quadrature_new sz)
       \<lparr> m_J := Some \<lparr> m00 = 0.5 * dx / scaling, m01 = 0, m10 = 0, m11 = 0.5 * dy / scaling \<rparr> \<rparr>"

text \<open>
  \<open>tensor_product_quadrature\<close>: the loop over \<open>j\<close> is the outer one, the loop over
  \<open>i\<close> the inner one, and \<open>q\<close> counts the pairs in that order.
\<close>

definition tensor_product_quadrature ::
  "nat \<Rightarrow> real list \<Rightarrow> real list \<Rightarrow> QuadPoint list \<times> real list" where
  "tensor_product_quadrature n points1 weights1 =
     (concat (map (\<lambda>j. map (\<lambda>i. \<lparr> pt_xi = points1 ! i, pt_eta = points1 ! j \<rparr>) [0..<n]) [0..<n]),
      concat (map (\<lambda>j. map (\<lambda>i. weights1 ! i * weights1 ! j) [0..<n]) [0..<n]))"

text \<open>
  \<open>Quadrature::initialize\<close>: the germs are the shape functions transformed by the inverse
  Jacobian, the weights are the reference weights times the determinant of the Jacobian.
  The assertions of \<open>invert\<close> and of the shape function give \<open>None\<close>.
\<close>

definition initialize ::
  "(nat \<Rightarrow> QuadPoint \<Rightarrow> Germ option) \<Rightarrow> nat \<Rightarrow> QuadPoint list \<Rightarrow> real list \<Rightarrow>
   Quadrature \<Rightarrow> Quadrature option" where
  "initialize f n_chi points W quad =
     (case m_J quad of
        None \<Rightarrow> None
      | Some J \<Rightarrow>
     (case invert J of
        None \<Rightarrow> None
      | Some J_inv \<Rightarrow>
          (case those (map (\<lambda>q. those (map (\<lambda>k. map_option (multiply_germ J_inv) (f k (points ! q)))
                                           [0..<n_chi]))
                           [0..<m_Nq quad]) of
             None \<Rightarrow> None
           | Some gs \<Rightarrow>
               Some (quad \<lparr> m_germs := gs,
                            m_W := map (\<lambda>q. determinant J * W ! q) [0..<m_Nq quad] \<rparr>))))"

definition Q1Quadrature4 :: "real \<Rightarrow> real \<Rightarrow> real \<Rightarrow> Quadrature option" where
  "Q1Quadrature4 dx dy L =
     (let A = 1 / sqrt 3;
          points2 = [- A, A];
          weights2 = [1, 1];
          (points, W) = tensor_product_quadrature 2 points2 weights2
      in initialize q1_chi q1_n_chi points W (UniformQxQuadrature 4 dx dy L))"

definition Q1Quadrature9 :: "real \<Rightarrow> real \<Rightarrow> real \<Rightarrow> Quadrature option" where
  "Q1Quadrature9 dx dy L =
     (let A = 0;
          B = sqrt 0.6;
          points3 = [- B, A, B];
          w1 = 5 / 9;
          w2 = 8 / 9;
          weights3 = [w1, w2, w1];
          (points, W) = tensor_product_quadrature 3 points3 weights3
      in initialize q1_chi q1_n_chi points W (UniformQxQuadrature 9 dx dy L))"

definition Q1Quadrature16 :: "real \<Rightarrow> real \<Rightarrow> real \<Rightarrow> Quadrature option" where
  "Q1Quadrature16 dx dy L =
     (let A = sqrt (3 / 7 - (2 / 7) * sqrt (6 / 5));
          B = sqrt (3 / 7 + (2 / 7) * sqrt (6 / 5));
          points4 = [- B, - A, A, B];
          w1 = (18 + sqrt 30) / 36;
          w2 = (18 - sqrt 30) / 36;
          weights4 = [w2, w1, w1, w2];
          (points, W) = tensor_product_quadrature 4 points4 weights4
      in initialize q1_chi q1_n_chi points W (UniformQxQuadrature 16 dx dy L))"

text \<open>
  \<open>P1Quadrature\<close>: the \<open>switch\<close> on the triangle index \<open>N\<close> has the four cases 0 to 3
  and no default, so for any other \<open>N\<close> the Jacobian stays unset.
\<close>

definition P1Quadrature :: "nat \<Rightarrow> nat \<Rightarrow> real \<Rightarrow> real \<Rightarrow> real \<Rightarrow> Quadrature" where
  "P1Quadrature sz N dx dy L =
     (Quadrature_new sz)
       \<lparr> m_J :=
           (if N = 0 then Some \<lparr> m00 = dx / L, m01 = 0, m10 = 0, m11 = dy / L \<rparr>
            else if N = 1 then Some \<lparr> m00 = 0, m01 = dy / L, m10 = - dx / L, m11 = 0 \<rparr>
            else if N = 2 then Some \<lparr> m00 = - dx / L, m01 = 0, m10 = 0, m11 = - dy / L \<rparr>
            else if N = 3 then Some \<lparr> m00 = 0, m01 = - dy / L, m10 = dx / L, m11 = 0 \<rparr>
            else None) \<rparr>"

definition permute :: "nat list \<Rightarrow> Germ list \<Rightarrow> Germ list" where
  "permute p f = map (\<lambda>k. f ! (p ! k)) [0..<q1_n_chi]"

definition P1Quadrature3 :: "nat \<Rightarrow> real \<Rightarrow> real \<Rightarrow> real \<Rightarrow> Quadrature option" where
  "P1Quadrature3 N dx dy L =
     (let one_over_six = 1 / 6;
          two_over_three = 2 / 3;
          points = [\<lparr> pt_xi = two_over_three, pt_eta = one_over_six \<rparr>,
                    \<lparr> pt_xi = one_over_six, pt_eta = two_over_three \<rparr>,
                    \<lparr> pt_xi = one_over_six, pt_eta = one_over_six \<rparr>];
          W = [one_over_six, one_over_six, one_over_six];
          X = 3;
          p = [[0, 1, X, 2], [2, 0, 1, X], [X, 2, 0, 1], [1, X, 2, 0]]
      in case initialize p1_chi q1_n_chi points W (P1Quadrature 3 N dx dy L) of
           None \<Rightarrow> None
         | Some quad \<Rightarrow> Some (quad \<lparr> m_germs := map (permute (p ! N)) (m_germs quad) \<rparr>))"

section \<open>Dirichlet enforcement\<close>

text \<open>
  The matrix backend. \<open>MatStencil\<close> is the index of a grid node; a matrix \<open>Mat\<close> with
  blocks of size \<open>bs\<close> has one entry for each pair of a row \<open>(node, component)\<close> and a
  column \<open>(node, component)\<close>. \<open>MatSetValuesBlockedStencil\<close> belongs to the solver
  library, not to the sources; the model follows its use here, with \<open>ADD_VALUES\<close>: the
  values \<open>v\<close> are a row-major array of \<open>m * bs\<close> by \<open>n * bs\<close> numbers, and, as the
  comment at \<open>Element::add_contribution\<close> says, rows and columns with a negative index
  are ignored. The grid is two-dimensional, so the field \<open>k\<close> of a stencil is not read.
\<close>

record MatStencil =
  st_k :: int
  st_j :: int
  st_i :: int

type_synonym Mat = "(int \<times> int) \<times> nat \<Rightarrow> (int \<times> int) \<times> nat \<Rightarrow> real"

definition ignored :: "MatStencil \<Rightarrow> bool" where
  "ignored s = (st_i s < 0 \<or> st_j s < 0)"

definition stencil_node :: "MatStencil \<Rightarrow> int \<times> int" where
  "stencil_node s = (st_i s, st_j s)"

definition MatSetValuesBlockedStencil ::
  "nat \<Rightarrow> Mat \<Rightarrow> nat \<Rightarrow> MatStencil list \<Rightarrow> nat \<Rightarrow> MatStencil list \<Rightarrow> (nat \<Rightarrow> real) \<Rightarrow> Mat" where
  "MatSetValuesBlockedStencil bs J m idxm n idxn v =
     fold (\<lambda>a J.
       fold (\<lambda>b J.
         if ignored (idxm ! a) \<or> ignored (idxn ! b) then J
         else
           fold (\<lambda>p J.
             fold (\<lambda>q J.
               (let r = (stencil_node (idxm ! a), p);
                    c = (stencil_node (idxn ! b), q)
                in J (r := (J r) (c := J r c + v ((a * bs + p) * (n * bs) + (b * bs + q))))))
               [0 ..< bs] J)
             [0 ..< bs] J)
         [0 ..< n] J)
       [0 ..< m] J"

text \<open>
  The class \<open>Element\<close>: the position of the element and the stencils of the rows and
  columns of its four nodes. The number \<open>m_invalid_dof\<close> is declared in a header that is
  not among the sources; it is a parameter.
\<close>

record Element =
  el_i :: int
  el_j :: int
  el_row :: "MatStencil list"
  el_col :: "MatStencil list"

definition m_i_offset :: "int list" where
  "m_i_offset = [0, 1, 1, 0]"

definition m_j_offset :: "int list" where
  "m_j_offset = [0, 0, 1, 1]"

definition mark_row_invalid :: "int \<Rightarrow> nat \<Rightarrow> Element \<Rightarrow> Element" where
  "mark_row_invalid m_invalid_dof k e =
     e \<lparr> el_row := (el_row e) [k := \<lparr> st_k = 1, st_j = m_invalid_dof, st_i = m_invalid_dof \<rparr>] \<rparr>"

definition mark_col_invalid :: "int \<Rightarrow> nat \<Rightarrow> Element \<Rightarrow> Element" where
  "mark_col_invalid m_invalid_dof k e =
     e \<lparr> el_col := (el_col e) [k := \<lparr> st_k = 1, st_j = m_invalid_dof, st_i = m_invalid_dof \<rparr>] \<rparr>"

text \<open>
  \<open>Element::reset\<close>: rows and columns are the nodes of the element; then the rows of the
  nodes that the process does not own are marked invalid.
\<close>

definition Element_reset :: "int \<Rightarrow> IceGrid \<Rightarrow> int \<Rightarrow> int \<Rightarrow> Element" where
  "Element_reset m_invalid_dof grid i j =
     (let nodes = map (\<lambda>k. \<lparr> st_k = 0, st_j = j + m_j_offset ! k, st_i = i + m_i_offset ! k \<rparr>)
                      [0 ..< q1_n_chi];
          e = \<lparr> el_i = i, el_j = j, el_row = nodes, el_col = nodes \<rparr>
      in fold (\<lambda>k e.
                 let pism_i = st_i (el_row e ! k); pism_j = st_j (el_row e ! k)
                 in if pism_i < g_xs grid \<or> g_xs grid + g_xm grid - 1 < pism_i \<or>
                       pism_j < g_ys grid \<or> g_ys grid + g_ym grid - 1 < pism_j
                    then mark_row_invalid m_invalid_dof k e
                    else e)
              [0 ..< q1_n_chi] e)"

definition nodal_values :: "(int \<times> int \<Rightarrow> int) \<Rightarrow> Element \<Rightarrow> int list" where
  "nodal_values x_global e =
     map (\<lambda>k. x_global (el_i e + m_i_offset ! k, el_j e + m_j_offset ! k)) [0 ..< q1_n_chi]"

definition add_contribution :: "nat \<Rightarrow> (nat \<Rightarrow> real) \<Rightarrow> Mat \<Rightarrow> Element \<Rightarrow> Mat" where
  "add_contribution bs K J e =
     MatSetValuesBlockedStencil bs J q1_n_chi (el_row e) q1_n_chi (el_col e) K"

text \<open>
  \<open>DirichletData\<close>: the indicator field, which is a field of integers
  (\<open>IceModelVec2Int\<close>), and the weight. \<open>constrain\<close> marks the rows and the columns of
  the Dirichlet nodes of an element invalid.
\<close>

record DirichletData =
  m_indices :: "int \<times> int \<Rightarrow> int"
  m_weight :: real

definition constrain :: "int \<Rightarrow> DirichletData \<Rightarrow> Element \<Rightarrow> Element" where
  "constrain m_invalid_dof dd element =
     (let m_indices_e = nodal_values (m_indices dd) element
      in fold (\<lambda>k e.
                 if real_of_int (m_indices_e ! k) > 0.5
                 then mark_col_invalid m_invalid_dof k (mark_row_invalid m_invalid_dof k e)
                 else e)
              [0 ..< q1_n_chi] element)"

text \<open>
  \<open>DirichletData_Scalar::fix_jacobian\<close> and \<open>DirichletData_Vector::fix_jacobian\<close>: for each
  owned point with indicator above 0.5, the weight, or the block
  \<open>{weight, 0, 0, weight}\<close>, is added at the diagonal. The source leaves the field \<open>k\<close> of
  the stencil \<open>row\<close> unset; the backend does not read it.
\<close>

definition fix_jacobian_Scalar :: "DirichletData \<Rightarrow> IceGrid \<Rightarrow> Mat \<Rightarrow> Mat" where
  "fix_jacobian_Scalar dd grid J =
     (let identity = m_weight dd
      in fold (\<lambda>p J.
                 let i = fst p; j = snd p
                 in if real_of_int (m_indices dd (i, j)) > 0.5
                    then (let row = \<lparr> st_k = 0, st_j = j, st_i = i \<rparr>
                          in MatSetValuesBlockedStencil 1 J 1 [row] 1 [row] (\<lambda>n. identity))
                    else J)
              (Points_loop grid) J)"

definition fix_jacobian_Vector :: "DirichletData \<Rightarrow> IceGrid \<Rightarrow> Mat \<Rightarrow> Mat" where
  "fix_jacobian_Vector dd grid J =
     (let identity = [m_weight dd, 0, 0, m_weight dd]
      in fold (\<lambda>p J.
                 let i = fst p; j = snd p
                 in if real_of_int (m_indices dd (i, j)) > 0.5
                    then (let row = \<lparr> st_k = 0, st_j = j, st_i = i \<rparr>
                          in MatSetValuesBlockedStencil 2 J 1 [row] 1 [row] (\<lambda>n. identity ! n))
                    else J)
              (Points_loop grid) J)"

text \<open>
  Modelled from the spec: the element loop of the solvers that use \<open>DirichletData\<close> is
  not among the sources. By sections 4.4 and 4.5 of the specification the matrix is
  zeroed, and each element is reset to its position, constrained, and its local matrix
  \<open>K\<close> is added; nothing is assumed about the positions or about \<open>K\<close>.
\<close>

definition element_contribution ::
  "nat \<Rightarrow> int \<Rightarrow> DirichletData \<Rightarrow> IceGrid \<Rightarrow> (int \<times> int) \<times> (nat \<Rightarrow> real) \<Rightarrow> Mat \<Rightarrow> Mat" where
  "element_contribution bs m_invalid_dof dd grid c J =
     (let i = fst (fst c); j = snd (fst c); K = snd c;
          element = Element_reset m_invalid_dof grid i j;
          element = constrain m_invalid_dof dd element
      in add_contribution bs K J element)"

definition assemble_jacobian ::
  "nat \<Rightarrow> int \<Rightarrow> DirichletData \<Rightarrow> IceGrid \<Rightarrow> ((int \<times> int) \<times> (nat \<Rightarrow> real)) list \<Rightarrow> Mat" where
  "assemble_jacobian bs m_invalid_dof dd grid cs =
     fold (element_contribution bs m_invalid_dof dd grid) cs (\<lambda>r c. 0)"


text \<open>The stencil of the node \<open>k\<close> of the element \<open>(i, j)\<close>, and the stencil of an invalid row.\<close>

definition node_stencil :: "int \<Rightarrow> int \<Rightarrow> nat \<Rightarrow> MatStencil" where
  "node_stencil i j k = \<lparr> st_k = 0, st_j = j + m_j_offset ! k, st_i = i + m_i_offset ! k \<rparr>"

definition invalid_stencil :: "int \<Rightarrow> MatStencil" where
  "invalid_stencil d = \<lparr> st_k = 1, st_j = d, st_i = d \<rparr>"

section \<open>Poisson3: scaling of the equations at exterior and Dirichlet nodes\<close>

text \<open>\<open>dirichlet_scale\<close> of Poisson3.cc, operator for operator.\<close>

definition dirichlet_scale :: "real \<Rightarrow> real \<Rightarrow> real \<Rightarrow> real" where
  "dirichlet_scale dx dy dz =
     dx * dy * dz * (1 / (dx * dx) + 1 / (dy * dy) + 1 / dz * dz)"

definition u_exterior :: real where
  "u_exterior = 0"

text \<open>
  The branch of the owned-node loop of \<open>Poisson3::compute_residual\<close> taken at a node
  of type \<open>NODE_EXTERIOR\<close>: the value stored in \<open>R[k][j][i]\<close>.
\<close>

definition residual_exterior :: "real \<Rightarrow> real \<Rightarrow> real \<Rightarrow> real \<Rightarrow> int \<Rightarrow> real \<Rightarrow> real" where
  "residual_exterior dx dy thk min_thickness mz x =
     (let dz = max thk min_thickness / real_of_int (mz - 1)
      in dirichlet_scale dx dy dz * (x - u_exterior))"

text \<open>
  The value that the owned-node loop of \<open>Poisson3::compute_jacobian\<close> adds to the
  diagonal entry of an exterior (or Dirichlet) node.
\<close>

definition jacobian_exterior :: "real \<Rightarrow> real \<Rightarrow> real \<Rightarrow> real \<Rightarrow> int \<Rightarrow> real" where
  "jacobian_exterior dx dy thk min_thickness mz =
     (let dz = max thk min_thickness / real_of_int (mz - 1)
      in dirichlet_scale dx dy dz)"

section \<open>Poisson3: node types\<close>

text \<open>
  The three node types. The header that declares the enumeration \<open>NodeType\<close> is not among
  the sources, so the numbers of the enumerators are a parameter \<open>code\<close> of
  \<open>compute_node_type\<close>; nothing is assumed about them.
\<close>

datatype NodeType = NODE_INTERIOR | NODE_BOUNDARY | NODE_EXTERIOR

text \<open>
  The struct \<open>Parameters\<close> (the node type is stored as a \<open>double\<close>) and the part of
  \<open>DMDALocalInfo\<close> that the loops read: the owned range and the ghosted range.
\<close>

record Parameters =
  par_bed :: real
  par_thickness :: real
  par_node_type :: real

record DMDALocalInfo =
  i_xs :: int
  i_ys :: int
  i_xm :: int
  i_ym :: int
  i_gxs :: int
  i_gys :: int
  i_gxm :: int
  i_gym :: int

text \<open>The conversion \<open>(int) x\<close> of a \<open>double\<close>: truncation towards zero.\<close>

definition c_int :: "real \<Rightarrow> int" where
  "c_int x = (if 0 \<le> x then \<lfloor>x\<rfloor> else \<lceil>x\<rceil>)"

text \<open>
  The index pairs \<open>(i, j)\<close> of the two kinds of loops, \<open>j\<close> in the outer loop: the owned
  nodes, and the elements \<open>gxs \<le> i < gxs + gxm - 1\<close>, \<open>gys \<le> j < gys + gym - 1\<close>.
\<close>

definition owned_nodes :: "DMDALocalInfo \<Rightarrow> (int \<times> int) list" where
  "owned_nodes info =
     concat (map (\<lambda>j. map (\<lambda>i. (i, j)) [i_xs info .. i_xs info + i_xm info - 1])
                 [i_ys info .. i_ys info + i_ym info - 1])"

definition local_elements :: "DMDALocalInfo \<Rightarrow> (int \<times> int) list" where
  "local_elements info =
     concat (map (\<lambda>j. map (\<lambda>i. (i, j)) [i_gxs info .. i_gxs info + i_gxm info - 2])
                 [i_gys info .. i_gys info + i_gym info - 2])"

text \<open>
  The nodes of the element \<open>(i, j)\<close>, by the offsets of \<open>Element\<close>; the test of the source
  for an element that contains ice (no nodal thickness is below the threshold); and the
  body of the loop over the elements, which adds \<open>interior\<close> to the counter of each node.
\<close>

definition element_nodes :: "int \<times> int \<Rightarrow> (int \<times> int) list" where
  "element_nodes e =
     (let i = fst e; j = snd e;
          i_offset = [0, 1, 1, 0];
          j_offset = [0, 0, 1, 1]
      in map (\<lambda>k. (i + i_offset ! k, j + j_offset ! k)) [0 ..< q1_n_chi])"

definition interior_element :: "(int \<times> int \<Rightarrow> Parameters) \<Rightarrow> real \<Rightarrow> int \<times> int \<Rightarrow> bool" where
  "interior_element P min_thickness e =
     list_all (\<lambda>n. \<not> par_thickness (P n) < min_thickness) (element_nodes e)"

definition count_element ::
  "real \<Rightarrow> int \<times> int \<Rightarrow> (int \<times> int \<Rightarrow> Parameters) \<Rightarrow> (int \<times> int \<Rightarrow> Parameters)" where
  "count_element min_thickness e P =
     (let interior = interior_element P min_thickness e
      in fold (\<lambda>n P. P (n := (P n) \<lparr> par_node_type :=
                                         par_node_type (P n) + (if interior then 1 else 0) \<rparr>))
              (element_nodes e) P)"

text \<open>
  \<open>compute_node_type\<close>. \<open>P\<close> is the ghosted copy of the storage, which the function
  changes with no lasting effect; the result is the storage with the node type of the
  owned nodes set by the \<open>switch\<close> on the counter.
\<close>

definition node_type_of_count :: "int \<Rightarrow> NodeType" where
  "node_type_of_count c =
     (if c = 4 then NODE_INTERIOR else if c = 0 then NODE_EXTERIOR else NODE_BOUNDARY)"

definition compute_node_type ::
  "(NodeType \<Rightarrow> real) \<Rightarrow> DMDALocalInfo \<Rightarrow> real \<Rightarrow> (int \<times> int \<Rightarrow> Parameters) \<Rightarrow>
   (int \<times> int \<Rightarrow> Parameters)" where
  "compute_node_type code info min_thickness storage =
     (let P = storage;
          P = fold (\<lambda>n P. P (n := (P n) \<lparr> par_node_type := 0 \<rparr>)) (owned_nodes info) P;
          P = fold (count_element min_thickness) (local_elements info) P
      in fold (\<lambda>n result.
                 result (n := (result n) \<lparr> par_node_type :=
                     code (node_type_of_count (c_int (par_node_type (P n)))) \<rparr>))
              (owned_nodes info) storage)"

text \<open>
  The words of the specification. An element is icy when every nodal thickness is at
  least the threshold (\<open>icy\<close>), or, as the claim has it, exceeds the threshold
  (\<open>icy_strict\<close>). \<open>icy_count\<close> is the number of icy elements among the elements incident to
  a node that belong to the local range of elements.
\<close>

definition icy :: "(int \<times> int \<Rightarrow> real) \<Rightarrow> real \<Rightarrow> int \<times> int \<Rightarrow> bool" where
  "icy H min_thickness e =
     (case e of (i, j) \<Rightarrow>
        min_thickness \<le> H (i, j) \<and> min_thickness \<le> H (i + 1, j) \<and>
        min_thickness \<le> H (i + 1, j + 1) \<and> min_thickness \<le> H (i, j + 1))"

definition icy_strict :: "(int \<times> int \<Rightarrow> real) \<Rightarrow> real \<Rightarrow> int \<times> int \<Rightarrow> bool" where
  "icy_strict H min_thickness e =
     (case e of (i, j) \<Rightarrow>
        min_thickness < H (i, j) \<and> min_thickness < H (i + 1, j) \<and>
        min_thickness < H (i + 1, j + 1) \<and> min_thickness < H (i, j + 1))"

definition in_element_range :: "DMDALocalInfo \<Rightarrow> int \<times> int \<Rightarrow> bool" where
  "in_element_range info e =
     (case e of (i, j) \<Rightarrow>
        i_gxs info \<le> i \<and> i < i_gxs info + i_gxm info - 1 \<and>
        i_gys info \<le> j \<and> j < i_gys info + i_gym info - 1)"

definition incident_elements :: "int \<times> int \<Rightarrow> (int \<times> int) list" where
  "incident_elements n =
     (case n of (i, j) \<Rightarrow> [(i - 1, j - 1), (i, j - 1), (i - 1, j), (i, j)])"

definition icy_count ::
  "((int \<times> int \<Rightarrow> real) \<Rightarrow> real \<Rightarrow> int \<times> int \<Rightarrow> bool) \<Rightarrow> DMDALocalInfo \<Rightarrow>
   (int \<times> int \<Rightarrow> real) \<Rightarrow> real \<Rightarrow> int \<times> int \<Rightarrow> nat" where
  "icy_count is_icy info H min_thickness n =
     length (filter (\<lambda>e. in_element_range info e \<and> is_icy H min_thickness e)
                    (incident_elements n))"

definition owned_node :: "DMDALocalInfo \<Rightarrow> int \<times> int \<Rightarrow> bool" where
  "owned_node info n =
     (case n of (i, j) \<Rightarrow>
        i_xs info \<le> i \<and> i < i_xs info + i_xm info \<and>
        i_ys info \<le> j \<and> j < i_ys info + i_ym info)"



section \<open>Poisson3: padding of the grid for multigrid\<close>

text \<open>
  The C++ type \<open>int\<close> has 32 bits. Overflow of a signed \<open>int\<close> is undefined behaviour in
  C++; the compiled code computes in two's complement, so the model reduces every
  arithmetic result into the range of \<open>int\<close> (\<open>wrap32\<close>). The operators \<open>/\<close> and \<open>%\<close> of
  C++ truncate towards zero (\<open>sdiv\<close>, \<open>smod\<close>).
\<close>

definition wrap32 :: "int \<Rightarrow> int" where
  "wrap32 x = (x + 2 ^ 31) mod 2 ^ 32 - 2 ^ 31"

text \<open>
  The loop of \<open>pad\<close>, with the number of iterations still to run:
  \<open>C *= 2; k = (k % 2 ? k + 1 : k) / 2\<close>.
\<close>

fun pad_loop :: "nat \<Rightarrow> int \<Rightarrow> int \<Rightarrow> int \<times> int" where
  "pad_loop 0 C k = (C, k)"
| "pad_loop (Suc n) C k =
     pad_loop n (wrap32 (C * 2)) ((if k smod 2 \<noteq> 0 then wrap32 (k + 1) else k) sdiv 2)"

text \<open>
  \<open>pad(N, n_levels)\<close>: the loop runs \<open>n_levels\<close> times (not at all when it is negative).
  The arguments are the size of the grid that exists and the number of levels from the
  configuration; the padded grid is created afterwards, from the result.
\<close>

definition pad :: "int \<Rightarrow> int \<Rightarrow> int" where
  "pad N n_levels =
     (let k = wrap32 (N - 1);
          (C, k) = pad_loop (nat n_levels) 1 k
      in wrap32 (wrap32 (wrap32 (C * k) + 1) - N))"


text \<open>
  The block of \<open>Poisson3::setup\<close> that pads the domain: the new grid sizes, the new
  ownership ranges \<open>new_lx\<close>, \<open>new_ly\<close> and the bounds of the domain. \<open>Nx\<close> and \<open>Ny\<close> are
  the lengths of the ownership ranges; writing \<open>new_lx[Nx - 1]\<close> needs \<open>Nx > 0\<close>.
\<close>

record padded_domain =
  p_Mx :: int
  p_My :: int
  p_Mz :: int
  p_lx :: "int list"
  p_ly :: "int list"
  p_x_min :: real
  p_x_max :: real
  p_y_min :: real
  p_y_max :: real

definition domain_padding ::
  "int \<Rightarrow> int \<Rightarrow> int \<Rightarrow> int list \<Rightarrow> int list \<Rightarrow> real \<Rightarrow> real \<Rightarrow> real \<Rightarrow> real \<Rightarrow> int \<Rightarrow>
   padded_domain option" where
  "domain_padding Mx My Mz lx ly Lx Ly dx dy n_levels =
     (let Nx = length lx; Ny = length ly;
          x_max = Lx; x_min = - x_max;
          y_max = Ly; y_min = - y_max
      in if Nx = 0 \<or> Ny = 0 then None
         else
           (let pad_x = pad Mx n_levels;
                pad_y = pad My n_levels
            in Some \<lparr> p_Mx = wrap32 (Mx + pad_x), p_My = wrap32 (My + pad_y),
                      p_Mz = wrap32 (Mz + pad Mz n_levels),
                      p_lx = lx[Nx - 1 := wrap32 (lx ! (Nx - 1) + pad_x)],
                      p_ly = ly[Ny - 1 := wrap32 (ly ! (Ny - 1) + pad_y)],
                      p_x_min = x_min, p_x_max = x_max + of_int pad_x * dx,
                      p_y_min = y_min, p_y_max = y_max + of_int pad_y * dy \<rparr>))"

section \<open>Removal of narrow ice tongues\<close>

text \<open>
  Modelled from the spec: the cell-type mask and its predicates (\<open>mask::ice_free\<close>,
  \<open>mask::grounded_ice\<close>, \<open>mask::floating_ice\<close>, \<open>mask::ice_free_ocean\<close>) are declared in a
  header that is not among the sources. The spec lists the cell types: ice-free (land),
  grounded ice, floating ice and (ice-free) ocean; a cell is ice-free when it is
  ice-free land or ice-free ocean.
\<close>

datatype MaskValue = MASK_ICE_FREE_BEDROCK | MASK_GROUNDED | MASK_FLOATING | MASK_ICE_FREE_OCEAN

definition ice_free :: "MaskValue \<Rightarrow> bool" where
  "ice_free M = (M = MASK_ICE_FREE_BEDROCK \<or> M = MASK_ICE_FREE_OCEAN)"

definition grounded_ice :: "MaskValue \<Rightarrow> bool" where
  "grounded_ice M = (M = MASK_GROUNDED)"

definition floating_ice :: "MaskValue \<Rightarrow> bool" where
  "floating_ice M = (M = MASK_FLOATING)"

definition ice_free_ocean :: "MaskValue \<Rightarrow> bool" where
  "ice_free_ocean M = (M = MASK_ICE_FREE_OCEAN)"

text \<open>
  Modelled from the spec: the box stencil \<open>BoxStencil\<close> and the accessor \<open>int_box\<close> are
  declared in headers that are not among the sources either. The stencil holds the
  value at the cell and at its eight neighbours; \<open>i\<close> grows to the east and \<open>j\<close> to the
  north.
\<close>

record 'a BoxStencil =
  b_ij :: 'a
  b_n :: 'a
  b_nw :: 'a
  b_w :: 'a
  b_sw :: 'a
  b_s :: 'a
  b_se :: 'a
  b_e :: 'a
  b_ne :: 'a

definition int_box :: "(int \<times> int \<Rightarrow> MaskValue) \<Rightarrow> int \<Rightarrow> int \<Rightarrow> MaskValue BoxStencil" where
  "int_box msk i j =
     \<lparr> b_ij = msk (i, j),
       b_n = msk (i, j + 1), b_nw = msk (i - 1, j + 1), b_w = msk (i - 1, j),
       b_sw = msk (i - 1, j - 1), b_s = msk (i, j - 1), b_se = msk (i + 1, j - 1),
       b_e = msk (i + 1, j), b_ne = msk (i + 1, j + 1) \<rparr>"

text \<open>The fields of \<open>Geometry\<close> that \<open>remove_narrow_tongues\<close> reads.\<close>

record Geometry =
  cell_type :: "int \<times> int \<Rightarrow> MaskValue"
  bed_elevation :: "int \<times> int \<Rightarrow> real"
  sea_level_elevation :: "int \<times> int \<Rightarrow> real"

text \<open>
  The stencil \<open>ice_free\<close> of the loop body: \<open>ice_free_ocean\<close> of the neighbours when the
  cell has grounded ice, \<open>ice_free\<close> of the neighbours when it has floating ice. In any
  other case the source leaves the stencil uninitialised: the value \<open>None\<close>.
\<close>

definition neighbors_ice_free :: "Geometry \<Rightarrow> int \<Rightarrow> int \<Rightarrow> bool BoxStencil option" where
  "neighbors_ice_free geometry i j =
     (let msk = cell_type geometry; M = int_box msk i j
      in if grounded_ice (b_ij M) then
           Some \<lparr> b_ij = False,
                  b_n = ice_free_ocean (b_n M), b_nw = ice_free_ocean (b_nw M),
                  b_w = ice_free_ocean (b_w M), b_sw = ice_free_ocean (b_sw M),
                  b_s = ice_free_ocean (b_s M), b_se = ice_free_ocean (b_se M),
                  b_e = ice_free_ocean (b_e M), b_ne = ice_free_ocean (b_ne M) \<rparr>
         else if floating_ice (msk (i, j)) then
           Some \<lparr> b_ij = False,
                  b_n = ice_free (b_n M), b_nw = ice_free (b_nw M),
                  b_w = ice_free (b_w M), b_sw = ice_free (b_sw M),
                  b_s = ice_free (b_s M), b_se = ice_free (b_se M),
                  b_e = ice_free (b_e M), b_ne = ice_free (b_ne M) \<rparr>
         else None)"

text \<open>The condition of the last \<open>if\<close> of the loop body, disjunct for disjunct.\<close>

definition narrow_tongue :: "bool BoxStencil \<Rightarrow> bool" where
  "narrow_tongue f =
     ((\<not> b_w f \<and> b_nw f \<and> b_sw f \<and> b_n f \<and> b_s f \<and> b_e f) \<or>
      (\<not> b_n f \<and> b_nw f \<and> b_ne f \<and> b_w f \<and> b_e f \<and> b_s f) \<or>
      (\<not> b_e f \<and> b_ne f \<and> b_se f \<and> b_w f \<and> b_s f \<and> b_n f) \<or>
      (\<not> b_s f \<and> b_sw f \<and> b_se f \<and> b_w f \<and> b_e f \<and> b_n f))"

text \<open>
  The loop body at the point \<open>p = (i, j)\<close>, the loop over the points of \<open>Points(grid)\<close>,
  and \<open>remove_narrow_tongues\<close>; the ice thickness is the state.
\<close>

definition tongue_body ::
  "Geometry \<Rightarrow> int \<times> int \<Rightarrow> (int \<times> int \<Rightarrow> real) \<Rightarrow> (int \<times> int \<Rightarrow> real) option" where
  "tongue_body geometry p ice_thickness =
     (let msk = cell_type geometry; bed = bed_elevation geometry;
          sea_level = sea_level_elevation geometry;
          i = fst p; j = snd p
      in if ice_free (msk (i, j)) \<or>
            (grounded_ice (msk (i, j)) \<and> bed (i, j) \<ge> sea_level (i, j))
         then Some ice_thickness
         else
           (case neighbors_ice_free geometry i j of
              None \<Rightarrow> None
            | Some f \<Rightarrow>
                if narrow_tongue f then Some (ice_thickness ((i, j) := 0))
                else Some ice_thickness))"

fun tongue_loop ::
  "Geometry \<Rightarrow> (int \<times> int) list \<Rightarrow> (int \<times> int \<Rightarrow> real) \<Rightarrow> (int \<times> int \<Rightarrow> real) option" where
  "tongue_loop geometry [] ice_thickness = Some ice_thickness"
| "tongue_loop geometry (p # ps) ice_thickness =
     (case tongue_body geometry p ice_thickness of
        None \<Rightarrow> None
      | Some H \<Rightarrow> tongue_loop geometry ps H)"

definition remove_narrow_tongues ::
  "IceGrid \<Rightarrow> Geometry \<Rightarrow> (int \<times> int \<Rightarrow> real) \<Rightarrow> (int \<times> int \<Rightarrow> real) option" where
  "remove_narrow_tongues grid geometry ice_thickness =
     tongue_loop geometry (Points_loop grid) ice_thickness"

text \<open>The decision that the loop body takes at a cell, as a predicate.\<close>

definition removed :: "Geometry \<Rightarrow> int \<times> int \<Rightarrow> bool" where
  "removed geometry p =
     (\<not> (ice_free (cell_type geometry p) \<or>
         (grounded_ice (cell_type geometry p) \<and>
          bed_elevation geometry p \<ge> sea_level_elevation geometry p)) \<and>
      (case neighbors_ice_free geometry (fst p) (snd p) of
         None \<Rightarrow> False | Some f \<Rightarrow> narrow_tongue f))"

section \<open>Arithmetic of \<open>double\<close>\<close>

text \<open>
  The type \<open>double\<close> is IEEE 754 binary64: an arithmetic operation gives the exact
  result rounded to the nearest representable number, ties to the even significand.
  The sections above compute in exact arithmetic. In the Blatter solver, where the
  equality of two stored numbers is at stake, a function that computes with \<open>double\<close>
  takes the rounding as its first argument \<open>rnd\<close>, and each \<open>+\<close> and \<open>*\<close> of the source is
  \<open>fadd rnd\<close> and \<open>fmul rnd\<close>, in the order in which C++ evaluates the expression
  (\<open>a * b * c\<close> is \<open>(a * b) * c\<close>). With \<open>rnd = binary64\<close> this is the arithmetic of the
  machine, each operation rounded on its own (no fused multiply-add), for finite
  results (infinities and NaN are not modelled); with the identity it is exact
  arithmetic.

  \<open>binary64 x\<close>: the exponent \<open>e\<close> is such that \<open>|x| / 2 ^ e\<close> is in \<open>[2\<^sup>5\<^sup>2, 2\<^sup>5\<^sup>3)\<close>, and not
  below \<open>-1074\<close> (subnormal numbers); \<open>|x| / 2 ^ e\<close> is rounded to an integer.
\<close>

definition fadd :: "(real \<Rightarrow> real) \<Rightarrow> real \<Rightarrow> real \<Rightarrow> real" where
  "fadd rnd a b = rnd (a + b)"

definition fmul :: "(real \<Rightarrow> real) \<Rightarrow> real \<Rightarrow> real \<Rightarrow> real" where
  "fmul rnd a b = rnd (a * b)"

definition round_half_even :: "real \<Rightarrow> int" where
  "round_half_even x =
     (let f = \<lfloor>x\<rfloor>; d = x - of_int f
      in if d < 1 / 2 then f
         else if 1 / 2 < d then f + 1
         else if even f then f else f + 1)"

fun scale_exponent :: "nat \<Rightarrow> real \<Rightarrow> int \<Rightarrow> int" where
  "scale_exponent 0 x e = e"
| "scale_exponent (Suc n) x e =
     (if 2 ^ 53 \<le> x then scale_exponent n (x / 2) (e + 1)
      else if x < 2 ^ 52 \<and> - 1074 < e then scale_exponent n (x * 2) (e - 1)
      else e)"

definition pow2 :: "int \<Rightarrow> real" where
  "pow2 e = (if 0 \<le> e then 2 ^ nat e else 1 / 2 ^ nat (- e))"

definition binary64 :: "real \<Rightarrow> real" where
  "binary64 x =
     (if x = 0 then 0
      else let e = scale_exponent 2200 \<bar>x\<bar> 0
           in sgn x * (of_int (round_half_even (\<bar>x\<bar> / pow2 e)) * pow2 e))"

section \<open>Blatter solver: the element Jacobian\<close>

text \<open>
  \<open>Vector2\<close> is a pair of velocity components; the germ of a shape function of a 3D
  element has a third derivative. The element-local matrix \<open>double K[16][16]\<close> is a
  function of the row and the column index; \<open>K[r][c] += x\<close> and \<open>K[r][c] = x\<close> are
  \<open>K_add\<close> and \<open>K_set\<close>.
\<close>

record Vector2 =
  vec_u :: real
  vec_v :: real

record Germ3 = Germ +
  g_dz :: real

type_synonym LocalMatrix = "nat \<Rightarrow> nat \<Rightarrow> real"

definition K_add :: "(real \<Rightarrow> real) \<Rightarrow> LocalMatrix \<Rightarrow> nat \<Rightarrow> nat \<Rightarrow> real \<Rightarrow> LocalMatrix" where
  "K_add rnd K r c x = K (r := (K r) (c := fadd rnd (K r c) x))"

definition K_set :: "LocalMatrix \<Rightarrow> nat \<Rightarrow> nat \<Rightarrow> real \<Rightarrow> LocalMatrix" where
  "K_set K r c x = K (r := (K r) (c := x))"

definition q13d_n_chi :: nat where
  "q13d_n_chi = 8"

text \<open>
  The classes \<open>fem::Element3\<close> and \<open>fem::Q1Element3Face\<close> are not among the sources. Their
  methods are fields of the records: the number of quadrature points, the weights,
  the germs \<open>chi(q, t)\<close>, and \<open>evaluate\<close>, which gives the values (and, for an element,
  the partial derivatives) of a nodal field at a quadrature point. Nothing is assumed
  about them.
\<close>

record Element3 =
  e_n_pts :: nat
  e_weight :: "nat \<Rightarrow> real"
  e_chi :: "nat \<Rightarrow> nat \<Rightarrow> Germ3"
  e_evaluate_vec :: "(nat \<Rightarrow> Vector2) \<Rightarrow> nat \<Rightarrow> Vector2 \<times> Vector2 \<times> Vector2 \<times> Vector2"
  e_evaluate :: "(nat \<Rightarrow> real) \<Rightarrow> nat \<Rightarrow> real"

record Q1Element3Face =
  f_n_pts :: nat
  f_weight :: "nat \<Rightarrow> real"
  f_chi :: "nat \<Rightarrow> nat \<Rightarrow> real"
  f_evaluate_vec :: "(nat \<Rightarrow> Vector2) \<Rightarrow> nat \<Rightarrow> Vector2"
  f_evaluate :: "(nat \<Rightarrow> real) \<Rightarrow> nat \<Rightarrow> real"

text \<open>
  \<open>Blatter::jacobian_f\<close>. \<open>jacobian_f_entry\<close> is the body of the loop over the test function
  \<open>t\<close> and the trial function \<open>s\<close>, with its eight updates in the order of the source;
  \<open>jacobian_f_point\<close> is the body of the loop over the quadrature points, in which \<open>s\<close>
  runs from \<open>t\<close>. The flow law (\<open>effective_viscosity\<close>, returning the viscosity and its
  derivative) is a parameter.
\<close>

definition jacobian_f_entry ::
  "(real \<Rightarrow> real) \<Rightarrow> Germ3 \<Rightarrow> Germ3 \<Rightarrow> real \<Rightarrow> real \<Rightarrow> real \<Rightarrow>
   real \<Rightarrow> real \<Rightarrow> real \<Rightarrow> real \<Rightarrow> real \<Rightarrow> real \<Rightarrow>
   nat \<Rightarrow> nat \<Rightarrow> LocalMatrix \<Rightarrow> LocalMatrix" where
  "jacobian_f_entry rnd psi phi W eta deta ux uy uz vx vy vz t s K =
     (let add = fadd rnd; mul = fmul rnd;
          gamma_u = add (add (add (mul (mul 2 ux) (g_dx phi)) (mul vy (g_dx phi)))
                              (mul (mul 0.5 (g_dy phi)) (add uy vx)))
                         (mul (mul 0.5 uz) (g_dz phi));
          gamma_v = add (add (add (mul (mul 2 vy) (g_dy phi)) (mul ux (g_dy phi)))
                              (mul (mul 0.5 (g_dx phi)) (add uy vx)))
                         (mul (mul 0.5 vz) (g_dz phi));
          eta_u = mul deta gamma_u;
          eta_v = mul deta gamma_v;
          K = K_add rnd K (t * 2 + 0) (s * 2 + 0)
                (mul (mul W eta)
                     (add (add (mul (mul 4 (g_dx psi)) (g_dx phi)) (mul (g_dy psi) (g_dy phi)))
                          (mul (g_dz psi) (g_dz phi))));
          K = K_add rnd K (t * 2 + 0) (s * 2 + 1)
                (mul (mul W eta)
                     (add (mul (mul 2 (g_dx psi)) (g_dy phi)) (mul (g_dy psi) (g_dx phi))));
          K = K_add rnd K (t * 2 + 1) (s * 2 + 0)
                (mul (mul W eta)
                     (add (mul (mul 2 (g_dy psi)) (g_dx phi)) (mul (g_dx psi) (g_dy phi))));
          K = K_add rnd K (t * 2 + 1) (s * 2 + 1)
                (mul (mul W eta)
                     (add (add (mul (mul 4 (g_dy psi)) (g_dy phi)) (mul (g_dx psi) (g_dx phi)))
                          (mul (g_dz psi) (g_dz phi))));
          K = K_add rnd K (t * 2 + 0) (s * 2 + 0)
                (mul (mul W eta_u)
                     (add (add (mul (g_dx psi) (add (mul 4 ux) (mul 2 vy)))
                               (mul (g_dy psi) (add uy vx)))
                          (mul (g_dz psi) uz)));
          K = K_add rnd K (t * 2 + 0) (s * 2 + 1)
                (mul (mul W eta_v)
                     (add (add (mul (g_dx psi) (add (mul 4 ux) (mul 2 vy)))
                               (mul (g_dy psi) (add uy vx)))
                          (mul (g_dz psi) uz)));
          K = K_add rnd K (t * 2 + 1) (s * 2 + 0)
                (mul (mul W eta_u)
                     (add (add (mul (g_dx psi) (add uy vx))
                               (mul (g_dy psi) (add (mul 4 vy) (mul 2 ux))))
                          (mul (g_dz psi) vz)));
          K = K_add rnd K (t * 2 + 1) (s * 2 + 1)
                (mul (mul W eta_v)
                     (add (add (mul (g_dx psi) (add uy vx))
                               (mul (g_dy psi) (add (mul 4 vy) (mul 2 ux))))
                          (mul (g_dz psi) vz)))
      in K)"

definition jacobian_f_point ::
  "(real \<Rightarrow> real) \<Rightarrow> Element3 \<Rightarrow> (nat \<Rightarrow> Vector2) \<Rightarrow> (nat \<Rightarrow> real) \<Rightarrow>
   (real \<Rightarrow> real \<Rightarrow> real \<times> real) \<Rightarrow> nat \<Rightarrow> LocalMatrix \<Rightarrow> LocalMatrix" where
  "jacobian_f_point rnd element velocity hardness effective_viscosity q K =
     (let add = fadd rnd; mul = fmul rnd;
          Nk = q13d_n_chi;
          (u, u_x, u_y, u_z) = e_evaluate_vec element velocity q;
          B = e_evaluate element hardness q;
          W = e_weight element q;
          ux = vec_u u_x; uy = vec_u u_y; uz = vec_u u_z;
          vx = vec_v u_x; vy = vec_v u_y; vz = vec_v u_z;
          gamma = add (add (add (mul ux ux) (mul vy vy)) (mul ux vy))
                      (mul 0.25 (add (add (mul (add uy vx) (add uy vx)) (mul uz uz))
                                     (mul vz vz)));
          (eta, deta) = effective_viscosity B gamma
      in fold (\<lambda>t K.
                 let psi = e_chi element q t
                 in fold (\<lambda>s K.
                            let phi = e_chi element q s
                            in jacobian_f_entry rnd psi phi W eta deta ux uy uz vx vy vz t s K)
                         [t ..< Nk] K)
              [0 ..< Nk] K)"

definition jacobian_f ::
  "(real \<Rightarrow> real) \<Rightarrow> Element3 \<Rightarrow> (nat \<Rightarrow> Vector2) \<Rightarrow> (nat \<Rightarrow> real) \<Rightarrow>
   (real \<Rightarrow> real \<Rightarrow> real \<times> real) \<Rightarrow> LocalMatrix \<Rightarrow> LocalMatrix" where
  "jacobian_f rnd element velocity hardness effective_viscosity K =
     fold (jacobian_f_point rnd element velocity hardness effective_viscosity)
          [0 ..< e_n_pts element] K"

text \<open>
  \<open>Blatter::jacobian_basal\<close>: here \<open>t\<close> and \<open>s\<close> both run over all the shape functions.
  The sliding law (\<open>drag_with_derivative\<close>) is a parameter.
\<close>

definition jacobian_basal_point ::
  "(real \<Rightarrow> real) \<Rightarrow> Q1Element3Face \<Rightarrow> (nat \<Rightarrow> real) \<Rightarrow> (nat \<Rightarrow> real) \<Rightarrow> (nat \<Rightarrow> Vector2) \<Rightarrow>
   (real \<Rightarrow> real \<Rightarrow> real \<Rightarrow> real \<times> real) \<Rightarrow> nat \<Rightarrow> LocalMatrix \<Rightarrow> LocalMatrix" where
  "jacobian_basal_point rnd face tauc_nodal f_nodal velocity drag_with_derivative q K =
     (let add = fadd rnd; mul = fmul rnd;
          Nk = q13d_n_chi;
          u = f_evaluate_vec face velocity q;
          tauc = f_evaluate face tauc_nodal q;
          floatation = f_evaluate face f_nodal q;
          W = f_weight face q;
          grounded = (floatation \<le> 0);
          (beta, dbeta) = (if grounded then drag_with_derivative tauc (vec_u u) (vec_v u)
                           else (0, 0))
      in fold (\<lambda>t K.
                 let psi = f_chi face q t
                 in fold (\<lambda>s K.
                            let phi = f_chi face q s;
                                p = mul psi phi;
                                K = K_add rnd K (t * 2 + 0) (s * 2 + 0)
                                      (mul (mul W p)
                                           (add beta (mul (mul dbeta (vec_u u)) (vec_u u))));
                                K = K_add rnd K (t * 2 + 0) (s * 2 + 1)
                                      (mul (mul (mul (mul W p) dbeta) (vec_u u)) (vec_v u));
                                K = K_add rnd K (t * 2 + 1) (s * 2 + 0)
                                      (mul (mul (mul (mul W p) dbeta) (vec_v u)) (vec_u u));
                                K = K_add rnd K (t * 2 + 1) (s * 2 + 1)
                                      (mul (mul W p)
                                           (add beta (mul (mul dbeta (vec_v u)) (vec_v u))))
                            in K)
                         [0 ..< Nk] K)
              [0 ..< Nk] K)"

definition jacobian_basal ::
  "(real \<Rightarrow> real) \<Rightarrow> Q1Element3Face \<Rightarrow> (nat \<Rightarrow> real) \<Rightarrow> (nat \<Rightarrow> real) \<Rightarrow> (nat \<Rightarrow> Vector2) \<Rightarrow>
   (real \<Rightarrow> real \<Rightarrow> real \<Rightarrow> real \<times> real) \<Rightarrow> LocalMatrix \<Rightarrow> LocalMatrix" where
  "jacobian_basal rnd face tauc_nodal f_nodal velocity drag_with_derivative K =
     fold (jacobian_basal_point rnd face tauc_nodal f_nodal velocity drag_with_derivative)
          [0 ..< f_n_pts face] K"

text \<open>
  The loop of \<open>Blatter::compute_jacobian\<close> that fills the lower triangle: four
  assignments for each pair \<open>s < t\<close>, each reading the matrix as it is at that moment.
\<close>

definition fill_block :: "nat \<Rightarrow> nat \<Rightarrow> LocalMatrix \<Rightarrow> LocalMatrix" where
  "fill_block t s K =
     (let K = K_set K (t * 2 + 0) (s * 2 + 0) (K (s * 2 + 0) (t * 2 + 0));
          K = K_set K (t * 2 + 1) (s * 2 + 0) (K (s * 2 + 0) (t * 2 + 1));
          K = K_set K (t * 2 + 0) (s * 2 + 1) (K (s * 2 + 1) (t * 2 + 0));
          K = K_set K (t * 2 + 1) (s * 2 + 1) (K (s * 2 + 1) (t * 2 + 1))
      in K)"

definition fill_lower_triangle :: "LocalMatrix \<Rightarrow> LocalMatrix" where
  "fill_lower_triangle K =
     fold (\<lambda>t K. fold (\<lambda>s K. fill_block t s K) [0 ..< t] K) [0 ..< q13d_n_chi] K"

text \<open>
  The element-local matrix that \<open>Blatter::compute_jacobian\<close> hands to
  \<open>add_contribution\<close> for an element at the vertical level \<open>k\<close>: zero, then
  \<open>jacobian_f\<close>, then \<open>jacobian_basal\<close> when \<open>k = 0\<close>, then the fill of the lower triangle.
\<close>

definition element_jacobian ::
  "(real \<Rightarrow> real) \<Rightarrow> Element3 \<Rightarrow> Q1Element3Face \<Rightarrow> (nat \<Rightarrow> Vector2) \<Rightarrow> (nat \<Rightarrow> real) \<Rightarrow>
   (nat \<Rightarrow> real) \<Rightarrow> (nat \<Rightarrow> real) \<Rightarrow> (real \<Rightarrow> real \<Rightarrow> real \<times> real) \<Rightarrow>
   (real \<Rightarrow> real \<Rightarrow> real \<Rightarrow> real \<times> real) \<Rightarrow> int \<Rightarrow> LocalMatrix" where
  "element_jacobian rnd element face velocity B_nodal basal_yield_stress floatation
       effective_viscosity drag_with_derivative k =
     (let K = (\<lambda>r c. 0);
          K = jacobian_f rnd element velocity B_nodal effective_viscosity K;
          K = (if k = 0
               then jacobian_basal rnd face basal_yield_stress floatation velocity
                      drag_with_derivative K
               else K)
      in fill_lower_triangle K)"
section \<open>Theorems\<close>

subsection \<open>Iteration over grid points\<close>

lemma traverse_row:
  assumes "i \<le> b" and "j \<le> d"
  shows "traverse \<lparr> m_i = i, m_j = j, m_i_first = a, m_i_last = b,
                   m_j_first = c, m_j_last = d, m_done = False \<rparr> =
         map (Pair i) [j..d] @
         (if i + 1 \<le> b
          then traverse \<lparr> m_i = i + 1, m_j = c, m_i_first = a, m_i_last = b,
                         m_j_first = c, m_j_last = d, m_done = False \<rparr>
          else [])"
  using assms
proof (induction "nat (d - j)" arbitrary: j)
  case 0
  then have j: "j = d" by simp
  have up: "[d..d] = [d]" by (simp add: upto_rec1)
  show ?case
    unfolding j
    by (subst traverse.simps) (use \<open>i \<le> b\<close> in \<open>simp add: next_point_def Let_def up\<close>)
next
  case (Suc n)
  then have lt: "j < d" and n: "n = nat (d - (j + 1))" by linarith+
  have up: "[j..d] = j # [j + 1..d]" using lt by (simp add: upto_rec1)
  have "traverse \<lparr> m_i = i, m_j = j, m_i_first = a, m_i_last = b,
                  m_j_first = c, m_j_last = d, m_done = False \<rparr> =
        (i, j) # traverse \<lparr> m_i = i, m_j = j + 1, m_i_first = a, m_i_last = b,
                  m_j_first = c, m_j_last = d, m_done = False \<rparr>"
    by (subst traverse.simps) (use lt \<open>i \<le> b\<close> in \<open>simp add: next_point_def Let_def\<close>)
  also have "traverse \<lparr> m_i = i, m_j = j + 1, m_i_first = a, m_i_last = b,
                  m_j_first = c, m_j_last = d, m_done = False \<rparr> =
         map (Pair i) [j + 1..d] @
         (if i + 1 \<le> b
          then traverse \<lparr> m_i = i + 1, m_j = c, m_i_first = a, m_i_last = b,
                         m_j_first = c, m_j_last = d, m_done = False \<rparr>
          else [])"
    using Suc.hyps(1)[OF n \<open>i \<le> b\<close>] lt by simp
  finally show ?case by (simp add: up)
qed

lemma traverse_rows:
  assumes "i \<le> b" and "c \<le> d"
  shows "traverse \<lparr> m_i = i, m_j = c, m_i_first = a, m_i_last = b,
                   m_j_first = c, m_j_last = d, m_done = False \<rparr> =
         List.product [i..b] [c..d]"
  using assms
proof (induction "nat (b - i)" arbitrary: i)
  case 0
  then have i: "i = b" by simp
  have up: "[b..b] = [b]" by (simp add: upto_rec1)
  show ?case
    unfolding i using traverse_row[of b b c d a c] \<open>c \<le> d\<close> by (simp add: up)
next
  case (Suc n)
  then have lt: "i < b" and n: "n = nat (b - (i + 1))" by linarith+
  have up: "[i..b] = i # [i + 1..b]" using lt by (simp add: upto_rec1)
  show ?case
    using traverse_row[of i b c d a c] Suc.hyps(1)[OF n] lt \<open>c \<le> d\<close>
    by (simp add: up)
qed

lemma points_with_ghosts_product:
  assumes "1 \<le> g_xm g + 2 * int w" and "1 \<le> g_ym g + 2 * int w"
  shows "PointsWithGhosts_loop g w =
         List.product [g_xs g - int w .. g_xs g + g_xm g + int w - 1]
                      [g_ys g - int w .. g_ys g + g_ym g + int w - 1]"
  unfolding PointsWithGhosts_loop_def PointsWithGhosts_new_def
  by (rule traverse_rows) (use assms in linarith)+

lemma points_product:
  assumes "1 \<le> g_xm g" and "1 \<le> g_ym g"
  shows "Points_loop g = List.product [g_xs g .. g_xs g + g_xm g - 1] [g_ys g .. g_ys g + g_ym g - 1]"
  using points_with_ghosts_product[of g 0] assms
  by (simp add: Points_loop_def Points_new_def PointsWithGhosts_loop_def)

lemma set_upto_lessThan: "set [a .. b - 1] = {a ..< b :: int}"
  by auto

lemma mset_points:
  assumes "1 \<le> g_xm g" and "1 \<le> g_ym g"
  shows "mset (Points_loop g) = mset_set (owned g)"
proof -
  have d: "distinct (Points_loop g)"
    unfolding points_product[OF assms] by (simp add: distinct_product)
  have s: "set (Points_loop g) = owned g"
    unfolding points_product[OF assms] owned_def
    by (simp only: set_product set_upto_lessThan)
  show ?thesis
    using mset_set_set[OF d] s by simp
qed

lemma finite_owned: "finite (owned g)"
  by (simp add: owned_def)

lemma mset_points_all:
  assumes "\<forall>g \<in> set gs. 1 \<le> g_xm g \<and> 1 \<le> g_ym g" and "disjoint_ranges gs"
  shows "mset (concat (map Points_loop gs)) = mset_set (\<Union>g \<in> set gs. owned g)"
  using assms
proof (induction gs)
  case Nil
  then show ?case by simp
next
  case (Cons g gs)
  have dis: "owned g \<inter> (\<Union>h \<in> set gs. owned h) = {}"
    using Cons.prems(2) by auto
  have fin: "finite (\<Union>h \<in> set gs. owned h)"
    by (simp add: finite_owned)
  have "mset (concat (map Points_loop (g # gs))) =
        mset_set (owned g) + mset_set (\<Union>h \<in> set gs. owned h)"
    using Cons by (simp add: mset_points)
  also have "\<dots> = mset_set (owned g \<union> (\<Union>h \<in> set gs. owned h))"
    using mset_set_Union[OF finite_owned fin dis] by simp
  finally show ?case by simp
qed


text \<open>
  C7, as stated, fails. On a 2 by 2 grid owned by one process, with stencil width 1,
  the iterator visits the indices \<open>-1\<close> and \<open>2\<close>, which are outside the global range
  \<open>0, 1\<close>: they are not clipped on the grid that is not periodic and not wrapped (to \<open>1\<close>
  and \<open>0\<close>) on the periodic one. With an empty patch and width 0 it still visits a point.
\<close>

theorem ghosts_not_clipped_not_wrapped:
  "PointsWithGhosts_loop \<lparr> g_xs = 0, g_xm = 2, g_ys = 0, g_ym = 2, g_Mx = 2, g_My = 2,
                        g_periodicity = NOT_PERIODIC \<rparr> 1 =
     [(- 1, - 1), (- 1, 0), (- 1, 1), (- 1, 2), (0, - 1), (0, 0), (0, 1), (0, 2),
      (1, - 1), (1, 0), (1, 1), (1, 2), (2, - 1), (2, 0), (2, 1), (2, 2)] \<and>
   PointsWithGhosts_loop \<lparr> g_xs = 0, g_xm = 2, g_ys = 0, g_ym = 2, g_Mx = 2, g_My = 2,
                        g_periodicity = XY_PERIODIC \<rparr> 1 =
     [(- 1, - 1), (- 1, 0), (- 1, 1), (- 1, 2), (0, - 1), (0, 0), (0, 1), (0, 2),
      (1, - 1), (1, 0), (1, 1), (1, 2), (2, - 1), (2, 0), (2, 1), (2, 2)] \<and>
   PointsWithGhosts_loop \<lparr> g_xs = 0, g_xm = 0, g_ys = 0, g_ym = 2, g_Mx = 2, g_My = 2,
                        g_periodicity = NOT_PERIODIC \<rparr> 0 = [(0, 0)]"
  by code_simp

text \<open>
  C7, amended. When the range extended by the halo is not empty in either direction,
  \<open>PointsWithGhosts(grid, w)\<close> visits exactly the pairs \<open>(i, j)\<close> with
  \<open>xs - w \<le> i < xs + xm + w\<close> and \<open>ys - w \<le> j < ys + ym + w\<close>, each once, \<open>i\<close> in the outer
  and \<open>j\<close> in the inner loop; the result does not depend on the global sizes or on the
  periodicity, so no index is clipped or wrapped.
\<close>

theorem points_with_ghosts_halo:
  assumes "1 \<le> g_xm g + 2 * int w" and "1 \<le> g_ym g + 2 * int w"
  shows "PointsWithGhosts_loop g w =
           List.product [g_xs g - int w .. g_xs g + g_xm g + int w - 1]
                        [g_ys g - int w .. g_ys g + g_ym g + int w - 1] \<and>
         distinct (PointsWithGhosts_loop g w) \<and>
         set (PointsWithGhosts_loop g w) =
           {g_xs g - int w ..< g_xs g + g_xm g + int w} \<times>
           {g_ys g - int w ..< g_ys g + g_ym g + int w}"
proof -
  have p: "PointsWithGhosts_loop g w =
           List.product [g_xs g - int w .. g_xs g + g_xm g + int w - 1]
                        [g_ys g - int w .. g_ys g + g_ym g + int w - 1]"
    by (rule points_with_ghosts_product[OF assms])
  have "distinct (PointsWithGhosts_loop g w)"
    unfolding p by (simp add: distinct_product)
  moreover have "set (PointsWithGhosts_loop g w) =
           {g_xs g - int w ..< g_xs g + g_xm g + int w} \<times>
           {g_ys g - int w ..< g_ys g + g_ym g + int w}"
    unfolding p by (simp only: set_product set_upto_lessThan)
  ultimately show ?thesis using p by simp
qed

theorem points_with_ghosts_halo_witness:
  "(1::int) \<le> 2 + 2 * int 1 \<and> (1::int) \<le> 1 + 2 * int 1 \<and>
   PointsWithGhosts_loop \<lparr> g_xs = 3, g_xm = 2, g_ys = 0, g_ym = 1, g_Mx = 5, g_My = 1,
                        g_periodicity = X_PERIODIC \<rparr> 1 =
     List.product [2 .. 5] [- 1 .. 1] \<and>
   distinct (PointsWithGhosts_loop \<lparr> g_xs = 3, g_xm = 2, g_ys = 0, g_ym = 1, g_Mx = 5, g_My = 1,
                        g_periodicity = X_PERIODIC \<rparr> 1) \<and>
   set (PointsWithGhosts_loop \<lparr> g_xs = 3, g_xm = 2, g_ys = 0, g_ym = 1, g_Mx = 5, g_My = 1,
                        g_periodicity = X_PERIODIC \<rparr> 1) = {2 ..< 6} \<times> {- 1 ..< 2}"
proof -
  define g where "g = \<lparr> g_xs = 3, g_xm = 2, g_ys = 0, g_ym = 1, g_Mx = 5, g_My = 1,
                        g_periodicity = X_PERIODIC \<rparr>"
  have h1: "1 \<le> g_xm g + 2 * int 1" and h2: "1 \<le> g_ym g + 2 * int 1"
    by (simp_all add: g_def)
  have e: "[g_xs g - int 1 .. g_xs g + g_xm g + int 1 - 1] = [2 .. 5]"
    "[g_ys g - int 1 .. g_ys g + g_ym g + int 1 - 1] = [- 1 .. 1]"
    "{g_xs g - int 1 ..< g_xs g + g_xm g + int 1} = {2 ..< 6}"
    "{g_ys g - int 1 ..< g_ys g + g_ym g + int 1} = {- 1 ..< 2}"
    by (simp_all add: g_def)
  have c: "PointsWithGhosts_loop g 1 = List.product [2 .. 5] [- 1 .. 1] \<and>
           distinct (PointsWithGhosts_loop g 1) \<and>
           set (PointsWithGhosts_loop g 1) = {2 ..< 6} \<times> {- 1 ..< 2}"
    using points_with_ghosts_halo[OF h1 h2] unfolding e .
  have h: "(1::int) \<le> 2 + 2 * int 1" "(1::int) \<le> 1 + 2 * int 1"
    by simp_all
  show ?thesis
    using c h unfolding g_def by blast
qed

text \<open>
  On a process whose patch is not empty (\<open>xm \<ge> 1\<close>, \<open>ym \<ge> 1\<close>), \<open>Points(grid)\<close> visits
  each index pair of \<open>[xs, xs + xm) \<times> [ys, ys + ym)\<close> exactly once, in the row-major
  order of the pairs \<open>(i, j)\<close> (the order of the documented double loop), and nothing
  else. If the patches of all processes are not empty, pairwise disjoint and cover
  \<open>[0, Mx) \<times> [0, My)\<close>, then all the iterations together visit each index pair of the
  grid exactly once.
\<close>

lemma points_double_loop:
  assumes "1 \<le> g_xm g" and "1 \<le> g_ym g"
  shows "Points_loop g = double_loop g"
  using assms by (simp add: points_product double_loop_def product_concat_map)

theorem points_owned_exactly_once:
  "(1 \<le> g_xm g \<and> 1 \<le> g_ym g \<longrightarrow>
      Points_loop g = List.product [g_xs g .. g_xs g + g_xm g - 1] [g_ys g .. g_ys g + g_ym g - 1] \<and>
      distinct (Points_loop g) \<and> set (Points_loop g) = owned g) \<and>
   (list_all (\<lambda>h. 1 \<le> g_xm h \<and> 1 \<le> g_ym h) gs \<and> disjoint_ranges gs \<and>
    (\<Union>h \<in> set gs. owned h) = {0 ..< Mx} \<times> {0 ..< My} \<longrightarrow>
      mset (concat (map Points_loop gs)) = mset_set ({0 ..< Mx} \<times> {0 ..< My}))"
proof (intro conjI impI)
  assume a: "1 \<le> g_xm g \<and> 1 \<le> g_ym g"
  then have p: "Points_loop g =
      List.product [g_xs g .. g_xs g + g_xm g - 1] [g_ys g .. g_ys g + g_ym g - 1]"
    by (simp add: points_product)
  then show "Points_loop g =
      List.product [g_xs g .. g_xs g + g_xm g - 1] [g_ys g .. g_ys g + g_ym g - 1]" .
  show "distinct (Points_loop g)"
    unfolding p by (simp add: distinct_product)
  show "set (Points_loop g) = owned g"
    unfolding p owned_def by (simp only: set_product set_upto_lessThan)
next
  assume "list_all (\<lambda>h. 1 \<le> g_xm h \<and> 1 \<le> g_ym h) gs \<and> disjoint_ranges gs \<and>
    (\<Union>h \<in> set gs. owned h) = {0 ..< Mx} \<times> {0 ..< My}"
  then show "mset (concat (map Points_loop gs)) = mset_set ({0 ..< Mx} \<times> {0 ..< My})"
    using mset_points_all[of gs] by (simp add: list_all_iff)
qed

theorem points_owned_exactly_once_witness:
  "((1::int) \<le> 2 \<and> (1::int) \<le> 2) \<and>
   list_all (\<lambda>h. 1 \<le> g_xm h \<and> 1 \<le> g_ym h)
     [\<lparr> g_xs = 0, g_xm = 2, g_ys = 0, g_ym = 2, g_Mx = 3, g_My = 2,
        g_periodicity = NOT_PERIODIC \<rparr>,
      \<lparr> g_xs = 2, g_xm = 1, g_ys = 0, g_ym = 2, g_Mx = 3, g_My = 2,
        g_periodicity = NOT_PERIODIC \<rparr>] \<and>
   disjoint_ranges [\<lparr> g_xs = 0, g_xm = 2, g_ys = 0, g_ym = 2, g_Mx = 3, g_My = 2,
                      g_periodicity = NOT_PERIODIC \<rparr>,
                    \<lparr> g_xs = 2, g_xm = 1, g_ys = 0, g_ym = 2, g_Mx = 3, g_My = 2,
                      g_periodicity = NOT_PERIODIC \<rparr>] \<and>
   (\<Union>h \<in> set [\<lparr> g_xs = 0, g_xm = 2, g_ys = 0, g_ym = 2, g_Mx = 3, g_My = 2,
                   g_periodicity = NOT_PERIODIC \<rparr>,
                 \<lparr> g_xs = 2, g_xm = 1, g_ys = 0, g_ym = 2, g_Mx = 3, g_My = 2,
                   g_periodicity = NOT_PERIODIC \<rparr>]. owned h) = {0 ..< 3} \<times> {0 ..< 2} \<and>
   Points_loop \<lparr> g_xs = 0, g_xm = 2, g_ys = 0, g_ym = 2, g_Mx = 3, g_My = 2,
            g_periodicity = NOT_PERIODIC \<rparr> = List.product [0 .. 1] [0 .. 1] \<and>
   mset (concat (map Points_loop
          [\<lparr> g_xs = 0, g_xm = 2, g_ys = 0, g_ym = 2, g_Mx = 3, g_My = 2,
             g_periodicity = NOT_PERIODIC \<rparr>,
           \<lparr> g_xs = 2, g_xm = 1, g_ys = 0, g_ym = 2, g_Mx = 3, g_My = 2,
             g_periodicity = NOT_PERIODIC \<rparr>])) = mset_set ({0 ..< 3} \<times> {0 ..< 2})"
proof -
  define g1 where "g1 = \<lparr> g_xs = 0, g_xm = 2, g_ys = 0, g_ym = 2, g_Mx = 3, g_My = 2,
                          g_periodicity = NOT_PERIODIC \<rparr>"
  define g2 where "g2 = \<lparr> g_xs = 2, g_xm = 1, g_ys = 0, g_ym = 2, g_Mx = 3, g_My = 2,
                          g_periodicity = NOT_PERIODIC \<rparr>"
  have h1: "(1::int) \<le> g_xm g1 \<and> 1 \<le> g_ym g1"
    by (simp add: g1_def)
  have h2: "list_all (\<lambda>h. 1 \<le> g_xm h \<and> 1 \<le> g_ym h) [g1, g2]"
    by (simp add: g1_def g2_def)
  have h3: "disjoint_ranges [g1, g2]"
    by (auto simp add: g1_def g2_def owned_def)
  have h4: "(\<Union>h \<in> set [g1, g2]. owned h) = {0 ..< 3} \<times> {0 ..< 2}"
    by (auto simp add: g1_def g2_def owned_def)
  have e: "[g_xs g1 .. g_xs g1 + g_xm g1 - 1] = [0 .. 1]"
    "[g_ys g1 .. g_ys g1 + g_ym g1 - 1] = [0 .. 1]"
    by (simp_all add: g1_def)
  have c1: "Points_loop g1 = List.product [0 .. 1] [0 .. 1]"
    using points_owned_exactly_once[of g1 "[g1, g2]" 3 2] h1 unfolding e by blast
  have c2: "mset (concat (map Points_loop [g1, g2])) = mset_set ({0 ..< 3} \<times> {0 ..< 2})"
    using points_owned_exactly_once[of g1 "[g1, g2]" 3 2] h2 h3 h4 by blast
  have h0: "(1::int) \<le> 2"
    by simp
  show ?thesis
    using h0 h2 h3 h4 c1 c2 unfolding g1_def g2_def by blast
qed

subsection \<open>Shape functions\<close>



subsection \<open>Quadrature weights\<close>

lemma those_map_Some:
  "(\<And>x. x \<in> set xs \<Longrightarrow> f x \<noteq> None) \<Longrightarrow> \<exists>ys. those (map f xs) = Some ys"
  by (induction xs) fastforce+

lemma sum_list_concat_real: "sum_list (concat xss) = sum_list (map sum_list (xss :: real list list))"
  by (induction xss) auto

lemma initialize_weights:
  assumes J: "m_J quad = Some J" and det: "determinant J \<noteq> 0"
    and f: "\<And>k pt. k < n_chi \<Longrightarrow> f k pt \<noteq> None"
  shows "\<exists>Q. initialize f n_chi points W quad = Some Q \<and>
             m_W Q = map (\<lambda>q. determinant J * W ! q) [0..<m_Nq quad]"
proof -
  obtain J_inv where inv: "invert J = Some J_inv"
    using det by (simp add: invert_def Let_def)
  have "\<And>q. \<exists>ys. those (map (\<lambda>k. map_option (multiply_germ J_inv) (f k (points ! q)))
                                [0..<n_chi]) = Some ys"
    by (rule those_map_Some) (use f in auto)
  then have "\<exists>gs. those (map (\<lambda>q. those (map (\<lambda>k. map_option (multiply_germ J_inv) (f k (points ! q)))
                                           [0..<n_chi]))
                           [0..<m_Nq quad]) = Some gs"
    by (intro those_map_Some) auto
  then show ?thesis
    using J inv by (auto simp: initialize_def)
qed

lemma sum_list_tensor_weights:
  "sum_list (snd (tensor_product_quadrature n p w)) = (sum_list (map ((!) w) [0..<n]))\<^sup>2"
proof -
  have "sum_list (snd (tensor_product_quadrature n p w)) =
        (\<Sum>j\<leftarrow>[0..<n]. \<Sum>i\<leftarrow>[0..<n]. w ! i * w ! j)"
    by (simp add: tensor_product_quadrature_def sum_list_concat_real comp_def)
  also have "\<dots> = (\<Sum>j\<leftarrow>[0..<n]. (\<Sum>i\<leftarrow>[0..<n]. w ! i) * w ! j)"
    by (simp add: sum_list_mult_const)
  also have "\<dots> = (\<Sum>i\<leftarrow>[0..<n]. w ! i) * (\<Sum>j\<leftarrow>[0..<n]. w ! j)"
    by (simp add: sum_list_const_mult)
  finally show ?thesis
    by (simp add: power2_eq_square)
qed

lemma sum_list_tensor_weights_full:
  "length w = n \<Longrightarrow> sum_list (snd (tensor_product_quadrature n p w)) = (sum_list w)\<^sup>2"
  using sum_list_tensor_weights[of n p w] by (auto simp: map_nth)

lemma length_tensor_weights:
  "length (snd (tensor_product_quadrature n p w)) = n * n"
  by (simp add: tensor_product_quadrature_def length_concat comp_def sum_list_triv)

lemma sum_list_scaled_nth:
  "length W = n \<Longrightarrow> sum_list (map (\<lambda>q. c * W ! q) [0..<n]) = c * sum_list (W :: real list)"
proof -
  assume "length W = n"
  then have "map (\<lambda>q. c * W ! q) [0..<n] = map ((*) c) W"
    by (auto intro: nth_equalityI)
  then show ?thesis by (simp add: sum_list_const_mult)
qed

lemma q1_chi_defined: "k < q1_n_chi \<Longrightarrow> q1_chi k pt \<noteq> None"
  by (simp add: q1_chi_def)

lemma p1_chi_defined: "k < q1_n_chi \<Longrightarrow> p1_chi k pt \<noteq> None"
  by (simp add: p1_chi_def)

lemma initialize_weights_sum:
  assumes J: "m_J quad = Some J" and det: "determinant J \<noteq> 0"
    and f: "\<And>k pt. k < n_chi \<Longrightarrow> f k pt \<noteq> None"
    and len: "length W = m_Nq quad"
  shows "\<exists>Q. initialize f n_chi points W quad = Some Q \<and>
             sum_list (m_W Q) = determinant J * sum_list W"
  using initialize_weights[where f = f and n_chi = n_chi and points = points and W = W, OF J det f]
    sum_list_scaled_nth[OF len]
  by auto

lemma uniform_weights_sum:
  assumes "dx \<noteq> 0" "dy \<noteq> 0" "length W = N"
  shows "\<exists>Q. initialize q1_chi q1_n_chi P W (UniformQxQuadrature N dx dy 1) = Some Q \<and>
             sum_list (m_W Q) = dx * dy / 4 * sum_list W"
proof -
  define J where "J = \<lparr> m00 = 0.5 * dx / 1, m01 = 0, m10 = 0, m11 = 0.5 * dy / 1 \<rparr>"
  have mJ: "m_J (UniformQxQuadrature N dx dy 1) = Some J"
    and N: "length W = m_Nq (UniformQxQuadrature N dx dy 1)"
    using assms by (simp_all add: J_def UniformQxQuadrature_def Quadrature_new_def)
  have det: "determinant J = dx * dy / 4"
    by (simp add: determinant_def J_def)
  have "determinant J \<noteq> 0"
    unfolding det using assms by simp
  from initialize_weights_sum[where f = q1_chi and n_chi = q1_n_chi and points = P,
      OF mJ this q1_chi_defined N]
  show ?thesis by (simp add: det)
qed

lemma Q1Quadrature4_sum:
  assumes "dx \<noteq> 0" "dy \<noteq> 0"
  shows "\<exists>Q. Q1Quadrature4 dx dy 1 = Some Q \<and> sum_list (m_W Q) = dx * dy"
proof -
  define T where "T = tensor_product_quadrature 2 [- (1 / sqrt 3), 1 / sqrt 3] [1, 1]"
  have eq: "Q1Quadrature4 dx dy 1 =
            initialize q1_chi q1_n_chi (fst T) (snd T) (UniformQxQuadrature 4 dx dy 1)"
    by (simp add: Q1Quadrature4_def Let_def T_def split: prod.splits)
  have len: "length (snd T) = 4"
    by (simp add: T_def length_tensor_weights)
  have "sum_list (snd T) = 4"
    unfolding T_def by (subst sum_list_tensor_weights_full) simp_all
  with uniform_weights_sum[OF assms len, of "fst T"] eq show ?thesis
    by simp
qed

lemma Q1Quadrature9_sum:
  assumes "dx \<noteq> 0" "dy \<noteq> 0"
  shows "\<exists>Q. Q1Quadrature9 dx dy 1 = Some Q \<and> sum_list (m_W Q) = dx * dy"
proof -
  define T where "T = tensor_product_quadrature 3 [- sqrt 0.6, 0, sqrt 0.6] [5 / 9, 8 / 9, 5 / 9]"
  have eq: "Q1Quadrature9 dx dy 1 =
            initialize q1_chi q1_n_chi (fst T) (snd T) (UniformQxQuadrature 9 dx dy 1)"
    by (simp add: Q1Quadrature9_def Let_def T_def split: prod.splits)
  have len: "length (snd T) = 9"
    by (simp add: T_def length_tensor_weights)
  have "sum_list (snd T) = 4"
    unfolding T_def by (subst sum_list_tensor_weights_full) simp_all
  with uniform_weights_sum[OF assms len, of "fst T"] eq show ?thesis
    by simp
qed

lemma Q1Quadrature16_sum:
  assumes "dx \<noteq> 0" "dy \<noteq> 0"
  shows "\<exists>Q. Q1Quadrature16 dx dy 1 = Some Q \<and> sum_list (m_W Q) = dx * dy"
proof -
  define A where "A = sqrt (3 / 7 - (2 / 7) * sqrt (6 / 5))"
  define B where "B = sqrt (3 / 7 + (2 / 7) * sqrt (6 / 5))"
  define T where "T = tensor_product_quadrature 4 [- B, - A, A, B]
     [(18 - sqrt 30) / 36, (18 + sqrt 30) / 36, (18 + sqrt 30) / 36, (18 - sqrt 30) / 36]"
  have eq: "Q1Quadrature16 dx dy 1 =
            initialize q1_chi q1_n_chi (fst T) (snd T) (UniformQxQuadrature 16 dx dy 1)"
    by (simp add: Q1Quadrature16_def Let_def T_def A_def B_def split: prod.splits)
  have len: "length (snd T) = 16"
    by (simp add: T_def length_tensor_weights)
  have "(18 - sqrt 30) / 36 + (18 + sqrt 30) / 36 + (18 + sqrt 30) / 36 + (18 - sqrt 30) / 36
        = (2 :: real)"
    by (simp add: field_simps)
  then have "sum_list (snd T) = 4"
    unfolding T_def by (subst sum_list_tensor_weights_full) (simp_all add: add.assoc)
  with uniform_weights_sum[OF assms len, of "fst T"] eq show ?thesis
    by simp
qed

lemma P1Quadrature3_sum:
  assumes "dx \<noteq> 0" "dy \<noteq> 0" "N < 4"
  shows "\<exists>Q. P1Quadrature3 N dx dy 1 = Some Q \<and> sum_list (m_W Q) = dx * dy / 2"
proof -
  define W :: "real list" where "W = [1 / 6, 1 / 6, 1 / 6]"
  define P where "P = [\<lparr> pt_xi = 2 / 3, pt_eta = 1 / 6 \<rparr>,
                       \<lparr> pt_xi = 1 / 6, pt_eta = 2 / 3 \<rparr>,
                       \<lparr> pt_xi = 1 / 6, pt_eta = (1 / 6 :: real) \<rparr>]"
  have "N = 0 \<or> N = 1 \<or> N = 2 \<or> N = 3"
    using \<open>N < 4\<close> by arith
  then have "\<exists>J. m_J (P1Quadrature 3 N dx dy 1) = Some J \<and> determinant J = dx * dy"
    by (auto simp: P1Quadrature_def Quadrature_new_def determinant_def)
  then obtain J where mJ: "m_J (P1Quadrature 3 N dx dy 1) = Some J" and det: "determinant J = dx * dy"
    by blast
  have len: "length W = m_Nq (P1Quadrature 3 N dx dy 1)"
    by (simp add: W_def P1Quadrature_def Quadrature_new_def)
  have nz: "determinant J \<noteq> 0"
    using det assms by simp
  obtain Q where Q: "initialize p1_chi q1_n_chi P W (P1Quadrature 3 N dx dy 1) = Some Q"
    and s: "sum_list (m_W Q) = determinant J * sum_list W"
    using initialize_weights_sum[where f = p1_chi and n_chi = q1_n_chi and points = P,
        OF mJ nz p1_chi_defined len] by auto
  have "P1Quadrature3 N dx dy 1 =
        Some (Q \<lparr> m_germs := map (permute ([[0, 1, 3, 2], [2, 0, 1, 3], [3, 2, 0, 1], [1, 3, 2, 0]] ! N))
                                 (m_germs Q) \<rparr>)"
    using Q by (simp add: P1Quadrature3_def Let_def P_def W_def)
  moreover have "sum_list (m_W Q) = dx * dy / 2"
    using s det by (simp add: W_def)
  ultimately show ?thesis by simp
qed

text \<open>
  C6. Sum of the quadrature weights. For a Q1 element of size \<open>dx\<close> by \<open>dy\<close> and unit
  length scaling, the 4-, 9- and 16-point Gaussian rules are built successfully and
  their stored weights sum to \<open>dx dy\<close>; the 3-point P1 rule of each of the four
  triangles \<open>N < 4\<close> is built successfully and its weights sum to \<open>dx dy / 2\<close>.
\<close>

theorem quadrature_weights_sum:
  assumes "0 < dx" and "0 < dy" and "N < 4"
  shows "(\<exists>Q. Q1Quadrature4 dx dy 1 = Some Q \<and> sum_list (m_W Q) = dx * dy) \<and>
         (\<exists>Q. Q1Quadrature9 dx dy 1 = Some Q \<and> sum_list (m_W Q) = dx * dy) \<and>
         (\<exists>Q. Q1Quadrature16 dx dy 1 = Some Q \<and> sum_list (m_W Q) = dx * dy) \<and>
         (\<exists>Q. P1Quadrature3 N dx dy 1 = Some Q \<and> sum_list (m_W Q) = dx * dy / 2)"
proof -
  have nz: "dx \<noteq> 0" "dy \<noteq> 0"
    using assms by simp_all
  show ?thesis
    using Q1Quadrature4_sum[OF nz] Q1Quadrature9_sum[OF nz] Q1Quadrature16_sum[OF nz]
      P1Quadrature3_sum[OF nz \<open>N < 4\<close>]
    by blast
qed

theorem quadrature_weights_sum_witness:
  "(0::real) < 2 \<and> (0::real) < 3 \<and> (1::nat) < 4 \<and>
   (\<exists>Q. Q1Quadrature4 2 3 1 = Some Q \<and> sum_list (m_W Q) = 6) \<and>
   (\<exists>Q. Q1Quadrature9 2 3 1 = Some Q \<and> sum_list (m_W Q) = 6) \<and>
   (\<exists>Q. Q1Quadrature16 2 3 1 = Some Q \<and> sum_list (m_W Q) = 6) \<and>
   (\<exists>Q. P1Quadrature3 1 2 3 1 = Some Q \<and> sum_list (m_W Q) = 3)"
  using quadrature_weights_sum[of 2 3 1] by simp

subsection \<open>Dirichlet rows of the Jacobian\<close>

lemma fold_preserve:
  "(\<And>x s. x \<in> set xs \<Longrightarrow> g (f x s) = g s) \<Longrightarrow> g (fold f xs s) = g s"
  by (induction xs arbitrary: s) simp_all

lemma MatSet_row_untouched:
  assumes "\<And>a. a < m \<Longrightarrow> ignored (idxm ! a) \<or> stencil_node (idxm ! a) \<noteq> fst r"
  shows "MatSetValuesBlockedStencil bs J m idxm n idxn v r c = J r c"
  unfolding MatSetValuesBlockedStencil_def
proof (rule fold_preserve[where g = "\<lambda>J. J r c"])
  fix a and J1 :: Mat
  assume "a \<in> set [0 ..< m]"
  then have a: "ignored (idxm ! a) \<or> stencil_node (idxm ! a) \<noteq> fst r"
    using assms by simp
  show "fold (\<lambda>b J.
         if ignored (idxm ! a) \<or> ignored (idxn ! b) then J
         else
           fold (\<lambda>p J.
             fold (\<lambda>q J.
               (let r = (stencil_node (idxm ! a), p);
                    c = (stencil_node (idxn ! b), q)
                in J (r := (J r) (c := J r c + v ((a * bs + p) * (n * bs) + (b * bs + q))))))
               [0 ..< bs] J)
             [0 ..< bs] J)
         [0 ..< n] J1 r c = J1 r c"
  proof (rule fold_preserve[where g = "\<lambda>J. J r c"])
    fix b and J2 :: Mat
    show "(if ignored (idxm ! a) \<or> ignored (idxn ! b) then J2
         else
           fold (\<lambda>p J.
             fold (\<lambda>q J.
               (let r = (stencil_node (idxm ! a), p);
                    c = (stencil_node (idxn ! b), q)
                in J (r := (J r) (c := J r c + v ((a * bs + p) * (n * bs) + (b * bs + q))))))
               [0 ..< bs] J)
             [0 ..< bs] J2) r c = J2 r c"
    proof (cases "ignored (idxm ! a) \<or> ignored (idxn ! b)")
      case True
      then show ?thesis by simp
    next
      case False
      then have ne: "stencil_node (idxm ! a) \<noteq> fst r"
        using a by simp
      have "fold (\<lambda>p J.
             fold (\<lambda>q J.
               (let r = (stencil_node (idxm ! a), p);
                    c = (stencil_node (idxn ! b), q)
                in J (r := (J r) (c := J r c + v ((a * bs + p) * (n * bs) + (b * bs + q))))))
               [0 ..< bs] J)
             [0 ..< bs] J2 r c = J2 r c"
      proof (rule fold_preserve[where g = "\<lambda>J. J r c"])
        fix p' and J3 :: Mat
        show "fold (\<lambda>q J.
               (let r = (stencil_node (idxm ! a), p');
                    c = (stencil_node (idxn ! b), q)
                in J (r := (J r) (c := J r c + v ((a * bs + p') * (n * bs) + (b * bs + q))))))
               [0 ..< bs] J3 r c = J3 r c"
          by (rule fold_preserve[where g = "\<lambda>J. J r c"]) (use ne in \<open>auto simp: Let_def\<close>)
      qed
      then show ?thesis using False by simp
    qed
  qed
qed

lemma MatSet_col_untouched:
  assumes "\<And>b. b < n \<Longrightarrow> ignored (idxn ! b) \<or> stencil_node (idxn ! b) \<noteq> fst c"
  shows "MatSetValuesBlockedStencil bs J m idxm n idxn v r c = J r c"
  unfolding MatSetValuesBlockedStencil_def
proof (rule fold_preserve[where g = "\<lambda>J. J r c"])
  fix a and J1 :: Mat
  show "fold (\<lambda>b J.
         if ignored (idxm ! a) \<or> ignored (idxn ! b) then J
         else
           fold (\<lambda>p J.
             fold (\<lambda>q J.
               (let r = (stencil_node (idxm ! a), p);
                    c = (stencil_node (idxn ! b), q)
                in J (r := (J r) (c := J r c + v ((a * bs + p) * (n * bs) + (b * bs + q))))))
               [0 ..< bs] J)
             [0 ..< bs] J)
         [0 ..< n] J1 r c = J1 r c"
  proof (rule fold_preserve[where g = "\<lambda>J. J r c"])
    fix b and J2 :: Mat
    assume "b \<in> set [0 ..< n]"
    then have b: "ignored (idxn ! b) \<or> stencil_node (idxn ! b) \<noteq> fst c"
      using assms by simp
    show "(if ignored (idxm ! a) \<or> ignored (idxn ! b) then J2
         else
           fold (\<lambda>p J.
             fold (\<lambda>q J.
               (let r = (stencil_node (idxm ! a), p);
                    c = (stencil_node (idxn ! b), q)
                in J (r := (J r) (c := J r c + v ((a * bs + p) * (n * bs) + (b * bs + q))))))
               [0 ..< bs] J)
             [0 ..< bs] J2) r c = J2 r c"
    proof (cases "ignored (idxm ! a) \<or> ignored (idxn ! b)")
      case True
      then show ?thesis by simp
    next
      case False
      then have ne: "stencil_node (idxn ! b) \<noteq> fst c"
        using b by simp
      have "fold (\<lambda>p J.
             fold (\<lambda>q J.
               (let r = (stencil_node (idxm ! a), p);
                    c = (stencil_node (idxn ! b), q)
                in J (r := (J r) (c := J r c + v ((a * bs + p) * (n * bs) + (b * bs + q))))))
               [0 ..< bs] J)
             [0 ..< bs] J2 r c = J2 r c"
      proof (rule fold_preserve[where g = "\<lambda>J. J r c"])
        fix p' and J3 :: Mat
        show "fold (\<lambda>q J.
               (let r = (stencil_node (idxm ! a), p');
                    c = (stencil_node (idxn ! b), q)
                in J (r := (J r) (c := J r c + v ((a * bs + p') * (n * bs) + (b * bs + q))))))
               [0 ..< bs] J3 r c = J3 r c"
          by (rule fold_preserve[where g = "\<lambda>J. J r c"]) (use ne in \<open>auto simp: Let_def\<close>)
      qed
      then show ?thesis using False by simp
    qed
  qed
qed

lemma MatSet_scalar_diagonal:
  assumes "\<not> ignored row"
  shows "MatSetValuesBlockedStencil 1 J 1 [row] 1 [row] v r c =
         J r c + (if r = (stencil_node row, 0) \<and> c = (stencil_node row, 0) then v 0 else 0)"
  using assms by (simp add: MatSetValuesBlockedStencil_def Let_def)

lemma MatSet_vector_diagonal:
  assumes "\<not> ignored row"
  shows "MatSetValuesBlockedStencil 2 J 1 [row] 1 [row] v r c =
         J r c + (if fst r = stencil_node row \<and> fst c = stencil_node row \<and>
                     snd r < 2 \<and> snd c < 2
                  then v (snd r * 2 + snd c) else 0)"
proof -
  have u: "[0 ..< 2] = [0, 1]"
    by (simp add: upt_rec)
  obtain rn rp where r: "r = (rn, rp)" by (cases r)
  obtain cn cp where c: "c = (cn, cp)" by (cases c)
  have lt2: "\<And>k::nat. k < 2 \<longleftrightarrow> k = 0 \<or> k = 1"
    by auto
  show ?thesis
    using assms unfolding r c
    by (auto simp add: MatSetValuesBlockedStencil_def Let_def u lt2)
qed


lemma upt_n_chi: "[0 ..< q1_n_chi] = [0, Suc 0, Suc (Suc 0), Suc (Suc (Suc 0))]"
  by (simp add: q1_n_chi_def upt_rec)

lemma less_4_cases: "k < 4 \<Longrightarrow> k = 0 \<or> k = Suc 0 \<or> k = Suc (Suc 0) \<or> k = Suc (Suc (Suc 0))"
  for k :: nat
  by arith

lemma fold_mark_nth:
  assumes "m < length xs"
  shows "fold (\<lambda>k xs. if c k (xs ! k) then xs [k := v] else xs) [0 ..< n] xs ! m =
         (if m < n \<and> c m (xs ! m) then v else xs ! m)"
    and "length (fold (\<lambda>k xs. if c k (xs ! k) then xs [k := v] else xs) [0 ..< n] xs) = length xs"
proof -
  have "fold (\<lambda>k xs. if c k (xs ! k) then xs [k := v] else xs) [0 ..< n] xs ! m =
         (if m < n \<and> c m (xs ! m) then v else xs ! m) \<and>
        (\<forall>k \<ge> n. fold (\<lambda>k xs. if c k (xs ! k) then xs [k := v] else xs) [0 ..< n] xs ! k = xs ! k) \<and>
        length (fold (\<lambda>k xs. if c k (xs ! k) then xs [k := v] else xs) [0 ..< n] xs) = length xs"
  proof (induction n)
    case 0
    then show ?case by simp
  next
    case (Suc n)
    define ys where "ys = fold (\<lambda>k xs. if c k (xs ! k) then xs [k := v] else xs) [0 ..< n] xs"
    have IH: "ys ! m = (if m < n \<and> c m (xs ! m) then v else xs ! m)"
      "\<And>k. k \<ge> n \<Longrightarrow> ys ! k = xs ! k" "length ys = length xs"
      using Suc.IH unfolding ys_def by simp_all
    have step: "fold (\<lambda>k xs. if c k (xs ! k) then xs [k := v] else xs) [0 ..< Suc n] xs =
                (if c n (ys ! n) then ys [n := v] else ys)"
      by (simp add: ys_def)
    show ?case
      unfolding step using IH assms
      by (auto simp add: nth_list_update less_Suc_eq)
  qed
  then show "fold (\<lambda>k xs. if c k (xs ! k) then xs [k := v] else xs) [0 ..< n] xs ! m =
         (if m < n \<and> c m (xs ! m) then v else xs ! m)"
    and "length (fold (\<lambda>k xs. if c k (xs ! k) then xs [k := v] else xs) [0 ..< n] xs) = length xs"
    by simp_all
qed

lemma fold_mark_rows:
  "fold (\<lambda>k e. if c k (el_row e ! k) then mark_row_invalid d k e else e) ks e =
   e \<lparr> el_row := fold (\<lambda>k xs. if c k (xs ! k) then xs [k := invalid_stencil d] else xs)
                      ks (el_row e) \<rparr>"
  by (induction ks arbitrary: e) (simp_all add: mark_row_invalid_def invalid_stencil_def)

lemma fold_mark_rows_cols:
  "fold (\<lambda>k e. if c k then mark_col_invalid d k (mark_row_invalid d k e) else e) ks e =
   e \<lparr> el_row := fold (\<lambda>k xs. if c k then xs [k := invalid_stencil d] else xs) ks (el_row e),
       el_col := fold (\<lambda>k xs. if c k then xs [k := invalid_stencil d] else xs) ks (el_col e) \<rparr>"
  by (induction ks arbitrary: e)
    (simp_all add: mark_row_invalid_def mark_col_invalid_def invalid_stencil_def)

lemma Element_reset_eq:
  "Element_reset d grid i j =
   \<lparr> el_i = i, el_j = j,
     el_row = fold (\<lambda>k xs. if stencil_node (xs ! k) \<notin> owned grid
                            then xs [k := invalid_stencil d] else xs)
                   [0 ..< q1_n_chi] (map (node_stencil i j) [0 ..< q1_n_chi]),
     el_col = map (node_stencil i j) [0 ..< q1_n_chi] \<rparr>"
proof -
  have c: "(st_i s < g_xs grid \<or> g_xs grid + g_xm grid - 1 < st_i s \<or>
            st_j s < g_ys grid \<or> g_ys grid + g_ym grid - 1 < st_j s) =
           (stencil_node s \<notin> owned grid)" for s
    by (auto simp add: stencil_node_def owned_def)
  have n: "(\<lambda>k. \<lparr> st_k = 0, st_j = j + m_j_offset ! k, st_i = i + m_i_offset ! k \<rparr>) =
           node_stencil i j"
    by (simp add: node_stencil_def fun_eq_iff)
  show ?thesis
    unfolding Element_reset_def Let_def c n
    by (simp only: fold_mark_rows[where c = "\<lambda>k s. stencil_node s \<notin> owned grid"]) simp
qed

lemma Element_reset_row:
  assumes "k < 4"
  shows "el_row (Element_reset d grid i j) ! k =
         (if stencil_node (node_stencil i j k) \<in> owned grid
          then node_stencil i j k else invalid_stencil d)"
proof -
  have len: "k < length (map (node_stencil i j) [0 ..< q1_n_chi])"
    using assms by (simp add: q1_n_chi_def)
  show ?thesis
    unfolding Element_reset_eq
    using fold_mark_nth(1)[OF len, where c = "\<lambda>k s. stencil_node s \<notin> owned grid"
        and v = "invalid_stencil d" and n = q1_n_chi] assms
    by (simp add: q1_n_chi_def)
qed

lemma Element_reset_col:
  assumes "k < 4"
  shows "el_col (Element_reset d grid i j) ! k = node_stencil i j k"
  using assms by (simp add: Element_reset_eq q1_n_chi_def)


lemma constrain_eq:
  "constrain d dd e =
   e \<lparr> el_row := fold (\<lambda>k xs. if real_of_int (nodal_values (m_indices dd) e ! k) > 0.5
                               then xs [k := invalid_stencil d] else xs)
                      [0 ..< q1_n_chi] (el_row e),
       el_col := fold (\<lambda>k xs. if real_of_int (nodal_values (m_indices dd) e ! k) > 0.5
                               then xs [k := invalid_stencil d] else xs)
                      [0 ..< q1_n_chi] (el_col e) \<rparr>"
  unfolding constrain_def Let_def
  by (rule fold_mark_rows_cols[where c = "\<lambda>k. real_of_int (nodal_values (m_indices dd) e ! k) > 0.5"])

lemma nodal_values_reset:
  assumes "k < 4"
  shows "nodal_values x (Element_reset d grid i j) ! k = x (stencil_node (node_stencil i j k))"
  using assms
  by (simp add: nodal_values_def Element_reset_eq q1_n_chi_def stencil_node_def node_stencil_def)

lemma length_reset:
  "length (el_row (Element_reset d grid i j)) = 4"
  "length (el_col (Element_reset d grid i j)) = 4"
proof -
  have "length (map (node_stencil i j) [0 ..< q1_n_chi]) = 4"
    by (simp add: q1_n_chi_def)
  then show "length (el_row (Element_reset d grid i j)) = 4"
    unfolding Element_reset_eq
    using fold_mark_nth(2)[where xs = "map (node_stencil i j) [0 ..< q1_n_chi]" and m = 0
        and c = "\<lambda>k s. stencil_node s \<notin> owned grid" and v = "invalid_stencil d" and n = q1_n_chi]
    by simp
  show "length (el_col (Element_reset d grid i j)) = 4"
    by (simp add: Element_reset_eq q1_n_chi_def)
qed

lemma constrained_row:
  assumes "k < 4"
  shows "el_row (constrain d dd (Element_reset d grid i j)) ! k =
         (if real_of_int (m_indices dd (stencil_node (node_stencil i j k))) > 0.5
          then invalid_stencil d
          else if stencil_node (node_stencil i j k) \<in> owned grid
          then node_stencil i j k else invalid_stencil d)"
proof -
  define e where "e = Element_reset d grid i j"
  have len: "k < length (el_row e)"
    using assms by (simp add: e_def length_reset)
  have "el_row (constrain d dd e) ! k =
        (if k < q1_n_chi \<and> real_of_int (nodal_values (m_indices dd) e ! k) > 0.5
         then invalid_stencil d else el_row e ! k)"
    unfolding constrain_eq
    using fold_mark_nth(1)[OF len,
        where c = "\<lambda>k s. real_of_int (nodal_values (m_indices dd) e ! k) > 0.5"
        and v = "invalid_stencil d" and n = q1_n_chi]
    by simp
  then show ?thesis
    using assms
    by (simp add: e_def[symmetric] q1_n_chi_def)
       (simp add: e_def nodal_values_reset Element_reset_row)
qed

lemma constrained_col:
  assumes "k < 4"
  shows "el_col (constrain d dd (Element_reset d grid i j)) ! k =
         (if real_of_int (m_indices dd (stencil_node (node_stencil i j k))) > 0.5
          then invalid_stencil d else node_stencil i j k)"
proof -
  define e where "e = Element_reset d grid i j"
  have len: "k < length (el_col e)"
    using assms by (simp add: e_def length_reset)
  have "el_col (constrain d dd e) ! k =
        (if k < q1_n_chi \<and> real_of_int (nodal_values (m_indices dd) e ! k) > 0.5
         then invalid_stencil d else el_col e ! k)"
    unfolding constrain_eq
    using fold_mark_nth(1)[OF len,
        where c = "\<lambda>k s. real_of_int (nodal_values (m_indices dd) e ! k) > 0.5"
        and v = "invalid_stencil d" and n = q1_n_chi]
    by simp
  then show ?thesis
    using assms
    by (simp add: e_def[symmetric] q1_n_chi_def)
       (simp add: e_def nodal_values_reset Element_reset_col)
qed

lemma ignored_invalid: "d < 0 \<Longrightarrow> ignored (invalid_stencil d)"
  by (simp add: ignored_def invalid_stencil_def)

lemma element_contribution_row:
  assumes "d < 0" and "real_of_int (m_indices dd n) > 0.5"
  shows "element_contribution bs d dd grid c J (n, p) col = J (n, p) col"
  unfolding element_contribution_def Let_def add_contribution_def
proof (rule MatSet_row_untouched)
  fix a
  assume "a < q1_n_chi"
  then have a: "a < 4" by (simp add: q1_n_chi_def)
  show "ignored (el_row (constrain d dd (Element_reset d grid (fst (fst c)) (snd (fst c)))) ! a) \<or>
        stencil_node (el_row (constrain d dd (Element_reset d grid (fst (fst c)) (snd (fst c)))) ! a)
          \<noteq> fst (n, p)"
    unfolding constrained_row[OF a]
    using assms ignored_invalid[OF assms(1)] by auto
qed

lemma element_contribution_col:
  assumes "d < 0" and "real_of_int (m_indices dd n) > 0.5"
  shows "element_contribution bs d dd grid c J row (n, q) = J row (n, q)"
  unfolding element_contribution_def Let_def add_contribution_def
proof (rule MatSet_col_untouched)
  fix b
  assume "b < q1_n_chi"
  then have b: "b < 4" by (simp add: q1_n_chi_def)
  show "ignored (el_col (constrain d dd (Element_reset d grid (fst (fst c)) (snd (fst c)))) ! b) \<or>
        stencil_node (el_col (constrain d dd (Element_reset d grid (fst (fst c)) (snd (fst c)))) ! b)
          \<noteq> fst (n, q)"
    unfolding constrained_col[OF b]
    using assms ignored_invalid[OF assms(1)] by auto
qed

lemma assemble_row_zero:
  assumes "d < 0" and "real_of_int (m_indices dd n) > 0.5"
  shows "assemble_jacobian bs d dd grid cs (n, p) col = 0"
proof -
  have "fold (element_contribution bs d dd grid) cs J (n, p) col = J (n, p) col" for J
    by (rule fold_preserve[where g = "\<lambda>J. J (n, p) col"])
       (rule element_contribution_row[OF assms])
  then show ?thesis by (simp add: assemble_jacobian_def)
qed

lemma assemble_col_zero:
  assumes "d < 0" and "real_of_int (m_indices dd n) > 0.5"
  shows "assemble_jacobian bs d dd grid cs row (n, q) = 0"
proof -
  have "fold (element_contribution bs d dd grid) cs J row (n, q) = J row (n, q)" for J
    by (rule fold_preserve[where g = "\<lambda>J. J row (n, q)"])
       (rule element_contribution_col[OF assms])
  then show ?thesis by (simp add: assemble_jacobian_def)
qed


lemma fix_scalar_fold:
  assumes "distinct pts" and "\<And>p. p \<in> set pts \<Longrightarrow> 0 \<le> fst p \<and> 0 \<le> snd p"
  shows "fold (\<lambda>p J.
                 let i = fst p; j = snd p
                 in if real_of_int (m_indices dd (i, j)) > 0.5
                    then (let row = \<lparr> st_k = 0, st_j = j, st_i = i \<rparr>
                          in MatSetValuesBlockedStencil 1 J 1 [row] 1 [row] (\<lambda>n. w))
                    else J) pts J r c =
         J r c + (if fst r \<in> set pts \<and> real_of_int (m_indices dd (fst r)) > 0.5 \<and>
                     snd r = 0 \<and> c = r then w else 0)"
  using assms
proof (induction pts arbitrary: J)
  case Nil
  then show ?case by simp
next
  case (Cons p pts)
  obtain i j where p: "p = (i, j)" by (cases p)
  have nn: "\<not> ignored \<lparr> st_k = 0, st_j = j, st_i = i \<rparr>"
    using Cons.prems(2)[of p] by (simp add: p ignored_def)
  have sn: "stencil_node \<lparr> st_k = 0, st_j = j, st_i = i \<rparr> = (i, j)"
    by (simp add: stencil_node_def)
  have notin: "(i, j) \<notin> set pts"
    using Cons.prems(1) by (simp add: p)
  have IH: "\<And>J. fold (\<lambda>p J.
                 let i = fst p; j = snd p
                 in if real_of_int (m_indices dd (i, j)) > 0.5
                    then (let row = \<lparr> st_k = 0, st_j = j, st_i = i \<rparr>
                          in MatSetValuesBlockedStencil 1 J 1 [row] 1 [row] (\<lambda>n. w))
                    else J) pts J r c =
         J r c + (if fst r \<in> set pts \<and> real_of_int (m_indices dd (fst r)) > 0.5 \<and>
                     snd r = 0 \<and> c = r then w else 0)"
    using Cons.IH Cons.prems by simp
  show ?case
    unfolding fold_Cons comp_apply IH
    using notin
    by (cases r) (auto simp add: p Let_def MatSet_scalar_diagonal[OF nn, unfolded One_nat_def] sn)
qed

lemma fix_vector_fold:
  assumes "distinct pts" and "\<And>p. p \<in> set pts \<Longrightarrow> 0 \<le> fst p \<and> 0 \<le> snd p"
  shows "fold (\<lambda>p J.
                 let i = fst p; j = snd p
                 in if real_of_int (m_indices dd (i, j)) > 0.5
                    then (let row = \<lparr> st_k = 0, st_j = j, st_i = i \<rparr>
                          in MatSetValuesBlockedStencil 2 J 1 [row] 1 [row] v)
                    else J) pts J r c =
         J r c + (if fst r \<in> set pts \<and> real_of_int (m_indices dd (fst r)) > 0.5 \<and>
                     fst c = fst r \<and> snd r < 2 \<and> snd c < 2
                  then v (snd r * 2 + snd c) else 0)"
  using assms
proof (induction pts arbitrary: J)
  case Nil
  then show ?case by simp
next
  case (Cons p pts)
  obtain i j where p: "p = (i, j)" by (cases p)
  have nn: "\<not> ignored \<lparr> st_k = 0, st_j = j, st_i = i \<rparr>"
    using Cons.prems(2)[of p] by (simp add: p ignored_def)
  have sn: "stencil_node \<lparr> st_k = 0, st_j = j, st_i = i \<rparr> = (i, j)"
    by (simp add: stencil_node_def)
  have notin: "(i, j) \<notin> set pts"
    using Cons.prems(1) by (simp add: p)
  have IH: "\<And>J. fold (\<lambda>p J.
                 let i = fst p; j = snd p
                 in if real_of_int (m_indices dd (i, j)) > 0.5
                    then (let row = \<lparr> st_k = 0, st_j = j, st_i = i \<rparr>
                          in MatSetValuesBlockedStencil 2 J 1 [row] 1 [row] v)
                    else J) pts J r c =
         J r c + (if fst r \<in> set pts \<and> real_of_int (m_indices dd (fst r)) > 0.5 \<and>
                     fst c = fst r \<and> snd r < 2 \<and> snd c < 2
                  then v (snd r * 2 + snd c) else 0)"
    using Cons.IH Cons.prems by simp
  show ?case
    unfolding fold_Cons comp_apply IH
    using notin
    by (cases r) (auto simp add: p Let_def MatSet_vector_diagonal[OF nn, unfolded One_nat_def] sn)
qed

lemma points_distinct_nonneg:
  assumes "1 \<le> g_xm grid" and "1 \<le> g_ym grid" and "0 \<le> g_xs grid" and "0 \<le> g_ys grid"
  shows "distinct (Points_loop grid)"
    and "p \<in> set (Points_loop grid) \<Longrightarrow> 0 \<le> fst p \<and> 0 \<le> snd p"
    and "set (Points_loop grid) = owned grid"
proof -
  show "distinct (Points_loop grid)"
    unfolding points_product[OF assms(1,2)] by (simp add: distinct_product)
  show s: "set (Points_loop grid) = owned grid"
    unfolding points_product[OF assms(1,2)] owned_def
    by (simp only: set_product set_upto_lessThan)
  show "p \<in> set (Points_loop grid) \<Longrightarrow> 0 \<le> fst p \<and> 0 \<le> snd p"
    unfolding s using assms(3,4) by (cases p) (auto simp add: owned_def)
qed

lemma fix_jacobian_Scalar_apply:
  assumes "1 \<le> g_xm grid" and "1 \<le> g_ym grid" and "0 \<le> g_xs grid" and "0 \<le> g_ys grid"
  shows "fix_jacobian_Scalar dd grid J r c =
         J r c + (if fst r \<in> owned grid \<and> real_of_int (m_indices dd (fst r)) > 0.5 \<and>
                     snd r = 0 \<and> c = r then m_weight dd else 0)"
  unfolding fix_jacobian_Scalar_def Let_def
  using fix_scalar_fold[OF points_distinct_nonneg(1)[OF assms] points_distinct_nonneg(2)[OF assms],
      where dd = dd and w = "m_weight dd" and J = J and r = r and c = c, unfolded Let_def]
  unfolding points_distinct_nonneg(3)[OF assms] .

lemma fix_jacobian_Vector_apply:
  assumes "1 \<le> g_xm grid" and "1 \<le> g_ym grid" and "0 \<le> g_xs grid" and "0 \<le> g_ys grid"
  shows "fix_jacobian_Vector dd grid J r c =
         J r c + (if fst r \<in> owned grid \<and> real_of_int (m_indices dd (fst r)) > 0.5 \<and>
                     fst c = fst r \<and> snd r < 2 \<and> snd c < 2
                  then [m_weight dd, 0, 0, m_weight dd] ! (snd r * 2 + snd c) else 0)"
  unfolding fix_jacobian_Vector_def Let_def
  using fix_vector_fold[OF points_distinct_nonneg(1)[OF assms] points_distinct_nonneg(2)[OF assms],
      where dd = dd and v = "\<lambda>n. [m_weight dd, 0, 0, m_weight dd] ! n" and J = J and r = r and c = c,
      unfolded Let_def]
  unfolding points_distinct_nonneg(3)[OF assms] .


text \<open>
  C2. Dirichlet rows. Let the Jacobian be assembled from zero by any sequence of
  constrained element contributions and then fixed by \<open>fix_jacobian\<close>, with
  \<open>m_invalid_dof\<close> negative, on a process with a non-empty patch of non-negative indices.
  At every owned node \<open>n\<close> whose indicator exceeds 0.5: in the scalar case the diagonal
  entry is the weight and the rest of the row and of the column of \<open>n\<close> is zero; in the
  vector case the diagonal block is the weight times the identity and the entries of
  the rows and columns of \<open>n\<close> at other nodes are zero. No element contribution writes
  a row or a column of \<open>n\<close>, and \<open>fix_jacobian\<close> writes no row of a node whose indicator
  does not exceed 0.5: the two sets of rows are disjoint.
\<close>

theorem dirichlet_rows_fixed:
  assumes "m_invalid_dof < 0"
    and "1 \<le> g_xm grid" and "1 \<le> g_ym grid" and "0 \<le> g_xs grid" and "0 \<le> g_ys grid"
    and "n \<in> owned grid" and "real_of_int (m_indices dd n) > 0.5"
  shows "fix_jacobian_Scalar dd grid (assemble_jacobian 1 m_invalid_dof dd grid cs) (n, 0) (n, 0)
           = m_weight dd \<and>
         (\<forall>c. c \<noteq> (n, 0) \<longrightarrow>
            fix_jacobian_Scalar dd grid (assemble_jacobian 1 m_invalid_dof dd grid cs) (n, 0) c = 0 \<and>
            fix_jacobian_Scalar dd grid (assemble_jacobian 1 m_invalid_dof dd grid cs) c (n, 0) = 0) \<and>
         (\<forall>p < 2. \<forall>q < 2.
            fix_jacobian_Vector dd grid (assemble_jacobian 2 m_invalid_dof dd grid cs) (n, p) (n, q)
              = (if p = q then m_weight dd else 0)) \<and>
         (\<forall>p < 2. \<forall>c. fst c \<noteq> n \<longrightarrow>
            fix_jacobian_Vector dd grid (assemble_jacobian 2 m_invalid_dof dd grid cs) (n, p) c = 0 \<and>
            fix_jacobian_Vector dd grid (assemble_jacobian 2 m_invalid_dof dd grid cs) c (n, p) = 0) \<and>
         (\<forall>bs e J p c.
            element_contribution bs m_invalid_dof dd grid e J (n, p) c = J (n, p) c \<and>
            element_contribution bs m_invalid_dof dd grid e J c (n, p) = J c (n, p)) \<and>
         (\<forall>J r c. \<not> real_of_int (m_indices dd (fst r)) > 0.5 \<longrightarrow>
            fix_jacobian_Scalar dd grid J r c = J r c \<and>
            fix_jacobian_Vector dd grid J r c = J r c)"
proof -
  note g = assms(2-5)
  note fs = fix_jacobian_Scalar_apply[OF g]
  note fv = fix_jacobian_Vector_apply[OF g]
  note rz = assemble_row_zero[OF assms(1) assms(7)]
  note cz = assemble_col_zero[OF assms(1) assms(7)]
  have 1: "fix_jacobian_Scalar dd grid (assemble_jacobian 1 m_invalid_dof dd grid cs) (n, 0) (n, 0)
           = m_weight dd"
    using assms(6,7) by (simp add: fs rz)
  have 2: "\<forall>c. c \<noteq> (n, 0) \<longrightarrow>
            fix_jacobian_Scalar dd grid (assemble_jacobian 1 m_invalid_dof dd grid cs) (n, 0) c = 0 \<and>
            fix_jacobian_Scalar dd grid (assemble_jacobian 1 m_invalid_dof dd grid cs) c (n, 0) = 0"
    by (auto simp add: fs rz cz)
  have 3: "\<forall>p < 2. \<forall>q < 2.
            fix_jacobian_Vector dd grid (assemble_jacobian 2 m_invalid_dof dd grid cs) (n, p) (n, q)
              = (if p = q then m_weight dd else 0)"
  proof (intro allI impI)
    fix p q :: nat
    assume "p < 2" "q < 2"
    then have "(p = 0 \<or> p = 1) \<and> (q = 0 \<or> q = 1)" by auto
    then show "fix_jacobian_Vector dd grid (assemble_jacobian 2 m_invalid_dof dd grid cs) (n, p) (n, q)
              = (if p = q then m_weight dd else 0)"
      using assms(6,7) by (auto simp add: fv rz)
  qed
  have 4: "\<forall>p < 2. \<forall>c. fst c \<noteq> n \<longrightarrow>
            fix_jacobian_Vector dd grid (assemble_jacobian 2 m_invalid_dof dd grid cs) (n, p) c = 0 \<and>
            fix_jacobian_Vector dd grid (assemble_jacobian 2 m_invalid_dof dd grid cs) c (n, p) = 0"
    by (auto simp add: fv rz cz)
  have 5: "\<forall>bs e J p c.
            element_contribution bs m_invalid_dof dd grid e J (n, p) c = J (n, p) c \<and>
            element_contribution bs m_invalid_dof dd grid e J c (n, p) = J c (n, p)"
    using element_contribution_row[OF assms(1) assms(7)]
      element_contribution_col[OF assms(1) assms(7)] by simp
  have 6: "\<forall>J r c. \<not> real_of_int (m_indices dd (fst r)) > 0.5 \<longrightarrow>
            fix_jacobian_Scalar dd grid J r c = J r c \<and>
            fix_jacobian_Vector dd grid J r c = J r c"
    by (simp add: fs fv)
  show ?thesis
    using 1 2 3 4 5 6 by blast
qed

lemma assemble_example:
  "assemble_jacobian 1 (- 1)
     \<lparr> m_indices = (\<lambda>p. if p = (0, 0) then 1 else 0), m_weight = 3 \<rparr>
     \<lparr> g_xs = 0, g_xm = 2, g_ys = 0, g_ym = 2, g_Mx = 2, g_My = 2, g_periodicity = NOT_PERIODIC \<rparr>
     [((0, 0), (\<lambda>k. 1))] ((1, 0), 0) ((1, 0), 0) = 1 \<and>
   assemble_jacobian 1 (- 1)
     \<lparr> m_indices = (\<lambda>p. if p = (0, 0) then 1 else 0), m_weight = 3 \<rparr>
     \<lparr> g_xs = 0, g_xm = 2, g_ys = 0, g_ym = 2, g_Mx = 2, g_My = 2, g_periodicity = NOT_PERIODIC \<rparr>
     [((0, 0), (\<lambda>k. 1))] ((1, 0), 0) ((1, 1), 0) = 1"
  by code_simp

theorem dirichlet_rows_fixed_witness:
  "fix_jacobian_Scalar
     \<lparr> m_indices = (\<lambda>p. if p = (0, 0) then 1 else 0), m_weight = 3 \<rparr>
     \<lparr> g_xs = 0, g_xm = 2, g_ys = 0, g_ym = 2, g_Mx = 2, g_My = 2, g_periodicity = NOT_PERIODIC \<rparr>
     (assemble_jacobian 1 (- 1)
        \<lparr> m_indices = (\<lambda>p. if p = (0, 0) then 1 else 0), m_weight = 3 \<rparr>
        \<lparr> g_xs = 0, g_xm = 2, g_ys = 0, g_ym = 2, g_Mx = 2, g_My = 2, g_periodicity = NOT_PERIODIC \<rparr>
        [((0, 0), (\<lambda>k. 1))]) ((0, 0), 0) ((0, 0), 0) = 3 \<and>
   fix_jacobian_Scalar
     \<lparr> m_indices = (\<lambda>p. if p = (0, 0) then 1 else 0), m_weight = 3 \<rparr>
     \<lparr> g_xs = 0, g_xm = 2, g_ys = 0, g_ym = 2, g_Mx = 2, g_My = 2, g_periodicity = NOT_PERIODIC \<rparr>
     (assemble_jacobian 1 (- 1)
        \<lparr> m_indices = (\<lambda>p. if p = (0, 0) then 1 else 0), m_weight = 3 \<rparr>
        \<lparr> g_xs = 0, g_xm = 2, g_ys = 0, g_ym = 2, g_Mx = 2, g_My = 2, g_periodicity = NOT_PERIODIC \<rparr>
        [((0, 0), (\<lambda>k. 1))]) ((0, 0), 0) ((1, 0), 0) = 0 \<and>
   fix_jacobian_Scalar
     \<lparr> m_indices = (\<lambda>p. if p = (0, 0) then 1 else 0), m_weight = 3 \<rparr>
     \<lparr> g_xs = 0, g_xm = 2, g_ys = 0, g_ym = 2, g_Mx = 2, g_My = 2, g_periodicity = NOT_PERIODIC \<rparr>
     (assemble_jacobian 1 (- 1)
        \<lparr> m_indices = (\<lambda>p. if p = (0, 0) then 1 else 0), m_weight = 3 \<rparr>
        \<lparr> g_xs = 0, g_xm = 2, g_ys = 0, g_ym = 2, g_Mx = 2, g_My = 2, g_periodicity = NOT_PERIODIC \<rparr>
        [((0, 0), (\<lambda>k. 1))]) ((1, 0), 0) ((0, 0), 0) = 0 \<and>
   fix_jacobian_Vector
     \<lparr> m_indices = (\<lambda>p. if p = (0, 0) then 1 else 0), m_weight = 3 \<rparr>
     \<lparr> g_xs = 0, g_xm = 2, g_ys = 0, g_ym = 2, g_Mx = 2, g_My = 2, g_periodicity = NOT_PERIODIC \<rparr>
     (assemble_jacobian 2 (- 1)
        \<lparr> m_indices = (\<lambda>p. if p = (0, 0) then 1 else 0), m_weight = 3 \<rparr>
        \<lparr> g_xs = 0, g_xm = 2, g_ys = 0, g_ym = 2, g_Mx = 2, g_My = 2, g_periodicity = NOT_PERIODIC \<rparr>
        [((0, 0), (\<lambda>k. 1))]) ((0, 0), 1) ((0, 0), 1) = 3 \<and>
   fix_jacobian_Vector
     \<lparr> m_indices = (\<lambda>p. if p = (0, 0) then 1 else 0), m_weight = 3 \<rparr>
     \<lparr> g_xs = 0, g_xm = 2, g_ys = 0, g_ym = 2, g_Mx = 2, g_My = 2, g_periodicity = NOT_PERIODIC \<rparr>
     (assemble_jacobian 2 (- 1)
        \<lparr> m_indices = (\<lambda>p. if p = (0, 0) then 1 else 0), m_weight = 3 \<rparr>
        \<lparr> g_xs = 0, g_xm = 2, g_ys = 0, g_ym = 2, g_Mx = 2, g_My = 2, g_periodicity = NOT_PERIODIC \<rparr>
        [((0, 0), (\<lambda>k. 1))]) ((0, 0), 0) ((0, 0), 1) = 0 \<and>
   fix_jacobian_Vector
     \<lparr> m_indices = (\<lambda>p. if p = (0, 0) then 1 else 0), m_weight = 3 \<rparr>
     \<lparr> g_xs = 0, g_xm = 2, g_ys = 0, g_ym = 2, g_Mx = 2, g_My = 2, g_periodicity = NOT_PERIODIC \<rparr>
     (assemble_jacobian 2 (- 1)
        \<lparr> m_indices = (\<lambda>p. if p = (0, 0) then 1 else 0), m_weight = 3 \<rparr>
        \<lparr> g_xs = 0, g_xm = 2, g_ys = 0, g_ym = 2, g_Mx = 2, g_My = 2, g_periodicity = NOT_PERIODIC \<rparr>
        [((0, 0), (\<lambda>k. 1))]) ((1, 1), 0) ((0, 0), 1) = 0"
proof -
  define grid where "grid = \<lparr> g_xs = 0, g_xm = 2, g_ys = 0, g_ym = 2, g_Mx = 2, g_My = 2, g_periodicity = NOT_PERIODIC \<rparr>"
  define dd :: DirichletData where "dd = \<lparr> m_indices = (\<lambda>p. if p = (0, 0) then 1 else 0), m_weight = 3 \<rparr>"
  define cs :: "((int \<times> int) \<times> (nat \<Rightarrow> real)) list" where "cs = [((0, 0), (\<lambda>k. 1))]"
  have h: "(- 1 :: int) < 0" "1 \<le> g_xm grid" "1 \<le> g_ym grid" "0 \<le> g_xs grid" "0 \<le> g_ys grid"
    "(0, 0) \<in> owned grid" "real_of_int (m_indices dd (0, 0)) > 0.5"
    by (simp_all add: grid_def dd_def owned_def)
  note t = dirichlet_rows_fixed[OF h, of cs]
  have w: "m_weight dd = 3"
    by (simp add: dd_def)
  have a: "fix_jacobian_Scalar dd grid (assemble_jacobian 1 (- 1) dd grid cs) ((0, 0), 0) ((0, 0), 0) = 3"
    using t w by simp
  have b: "fix_jacobian_Scalar dd grid (assemble_jacobian 1 (- 1) dd grid cs) ((0, 0), 0) ((1, 0), 0) = 0"
    "fix_jacobian_Scalar dd grid (assemble_jacobian 1 (- 1) dd grid cs) ((1, 0), 0) ((0, 0), 0) = 0"
    using t by simp_all
  have c: "fix_jacobian_Vector dd grid (assemble_jacobian 2 (- 1) dd grid cs) ((0, 0), 1) ((0, 0), 1) = 3"
    "fix_jacobian_Vector dd grid (assemble_jacobian 2 (- 1) dd grid cs) ((0, 0), 0) ((0, 0), 1) = 0"
    using t w by simp_all
  have d: "fix_jacobian_Vector dd grid (assemble_jacobian 2 (- 1) dd grid cs) ((1, 1), 0) ((0, 0), 1) = 0"
    using t by simp
  show ?thesis
    using a b c d unfolding grid_def dd_def cs_def by blast
qed

subsection \<open>Scaling at exterior nodes\<close>

lemma dirichlet_scale_code:
  "dz \<noteq> 0 \<Longrightarrow> dirichlet_scale dx dy dz = dx * dy * dz * (1 / dx\<^sup>2 + 1 / dy\<^sup>2 + 1)"
  by (simp add: dirichlet_scale_def power2_eq_square)

text \<open>
  C1. The scale of the equations at exterior nodes. With \<open>dx = dy = 1\<close> and \<open>dz = 2\<close> the
  source's \<open>dirichlet_scale\<close> returns 6, while \<open>dx dy dz (1/dx\<^sup>2 + 1/dy\<^sup>2 + 1/dz\<^sup>2)\<close> is
  \<open>9/2\<close>: the last summand is written \<open>1.0 / dz * dz\<close>, which is \<open>(1/dz) dz\<close>. The
  residual (at the iterate 1) and the Jacobian diagonal of an exterior node (thickness 0,
  threshold 4, three vertical levels, so \<open>dz = 2\<close>) inherit the value 6.
\<close>

theorem dirichlet_scale_last_term:
  "dirichlet_scale 1 1 2 = 6 \<and>
   (1::real) * 1 * 2 * (1 / 1\<^sup>2 + 1 / 1\<^sup>2 + 1 / 2\<^sup>2) = 9 / 2 \<and>
   residual_exterior 1 1 0 4 3 1 = 6 \<and>
   jacobian_exterior 1 1 0 4 3 = 6"
  by (simp add: dirichlet_scale_def residual_exterior_def jacobian_exterior_def
      u_exterior_def Let_def)

subsection \<open>Node types\<close>

lemma element_nodes_eq:
  "element_nodes (i, j) = [(i, j), (i + 1, j), (i + 1, j + 1), (i, j + 1)]"
proof -
  have "[0 ..< q1_n_chi] = [0, 1, 2, 3]"
    by (simp add: q1_n_chi_def upt_rec)
  then show ?thesis
    by (simp add: element_nodes_def)
qed

lemma node_of_element_iff:
  "n \<in> set (element_nodes e) \<longleftrightarrow> e \<in> set (incident_elements n)"
  by (cases e, cases n) (auto simp add: element_nodes_eq incident_elements_def)

lemma count_list_element_nodes:
  "count_list (element_nodes e) n = (if n \<in> set (element_nodes e) then 1 else 0)"
  by (cases e, cases n) (auto simp add: element_nodes_eq)

lemma interior_element_icy:
  "interior_element P min_thickness e = icy (\<lambda>n. par_thickness (P n)) min_thickness e"
  by (cases e) (auto simp add: interior_element_def icy_def element_nodes_eq)

lemma fold_add_nodes:
  "fold (\<lambda>n P. P (n := (P n) \<lparr> par_node_type := par_node_type (P n) + b \<rparr>)) ns P m =
   (P m) \<lparr> par_node_type := par_node_type (P m) + b * of_nat (count_list ns m) \<rparr>"
  by (induction ns arbitrary: P) (simp_all add: algebra_simps)

lemma count_element_apply:
  "count_element min_thickness e P m =
   (P m) \<lparr> par_node_type := par_node_type (P m) +
       (if icy (\<lambda>n. par_thickness (P n)) min_thickness e \<and> m \<in> set (element_nodes e)
        then 1 else 0) \<rparr>"
  unfolding count_element_def Let_def fold_add_nodes count_list_element_nodes interior_element_icy
  by simp

lemma thickness_count_element:
  "(\<lambda>n. par_thickness (count_element min_thickness e P n)) = (\<lambda>n. par_thickness (P n))"
  by (simp add: count_element_apply)

lemma fold_count_element_apply:
  "fold (count_element min_thickness) es P m =
   (P m) \<lparr> par_node_type := par_node_type (P m) +
       of_nat (length (filter (\<lambda>e. icy (\<lambda>n. par_thickness (P n)) min_thickness e \<and>
                                     m \<in> set (element_nodes e)) es)) \<rparr>"
proof (induction es arbitrary: P)
  case Nil
  then show ?case by simp
next
  case (Cons e es)
  show ?case
    by (simp add: Cons.IH thickness_count_element) (simp add: count_element_apply)
qed

lemma fold_set_node_type:
  "fold (\<lambda>n R. R (n := (R n) \<lparr> par_node_type := f n \<rparr>)) ns R m =
   (if m \<in> set ns then (R m) \<lparr> par_node_type := f m \<rparr> else R m)"
  by (induction ns arbitrary: R) auto

lemma set_pairs:
  "set (concat (map (\<lambda>j. map (\<lambda>i. (i, j)) xs) ys)) = set xs \<times> set ys"
  by auto

lemma distinct_pairs:
  "distinct xs \<Longrightarrow> distinct ys \<Longrightarrow> distinct (concat (map (\<lambda>j. map (\<lambda>i. (i, j)) xs) ys))"
  by (induction ys) (auto simp add: distinct_map inj_on_def)

lemma set_owned_nodes: "n \<in> set (owned_nodes info) \<longleftrightarrow> owned_node info n"
  unfolding owned_nodes_def set_pairs by (cases n) (auto simp add: owned_node_def)

lemma set_local_elements: "e \<in> set (local_elements info) \<longleftrightarrow> in_element_range info e"
  unfolding local_elements_def set_pairs by (cases e) (auto simp add: in_element_range_def)

lemma distinct_local_elements: "distinct (local_elements info)"
  unfolding local_elements_def by (rule distinct_pairs) simp_all

lemma distinct_incident_elements: "distinct (incident_elements n)"
  by (cases n) (simp add: incident_elements_def)

lemma icy_count_local_elements:
  "length (filter (\<lambda>e. is_icy H min_thickness e \<and> m \<in> set (element_nodes e))
                  (local_elements info)) =
   icy_count is_icy info H min_thickness m"
proof -
  have "length (filter (\<lambda>e. is_icy H min_thickness e \<and> m \<in> set (element_nodes e))
                  (local_elements info)) =
        card ({e. is_icy H min_thickness e \<and> m \<in> set (element_nodes e)} \<inter>
              set (local_elements info))"
    by (rule distinct_length_filter[OF distinct_local_elements])
  also have "{e. is_icy H min_thickness e \<and> m \<in> set (element_nodes e)} \<inter>
              set (local_elements info) =
             {e. in_element_range info e \<and> is_icy H min_thickness e} \<inter>
              set (incident_elements m)"
    by (auto simp add: node_of_element_iff set_local_elements)
  also have "card \<dots> = icy_count is_icy info H min_thickness m"
    unfolding icy_count_def
    by (rule distinct_length_filter[OF distinct_incident_elements, symmetric])
  finally show ?thesis .
qed

lemma c_int_of_nat: "c_int (of_nat k) = int k"
  by (simp add: c_int_def)

lemma compute_node_type_apply:
  "compute_node_type code info min_thickness storage m =
   (if owned_node info m
    then (storage m) \<lparr> par_node_type :=
           code (node_type_of_count
                  (int (icy_count icy info (\<lambda>n. par_thickness (storage n)) min_thickness m))) \<rparr>
    else storage m)"
proof -
  define P0 where
    "P0 = fold (\<lambda>n P. P (n := (P n) \<lparr> par_node_type := 0 \<rparr>)) (owned_nodes info) storage"
  define P1 where "P1 = fold (count_element min_thickness) (local_elements info) P0"
  have P0: "P0 n = (if owned_node info n then (storage n) \<lparr> par_node_type := 0 \<rparr> else storage n)"
    for n
    unfolding P0_def fold_set_node_type by (simp add: set_owned_nodes)
  have thk: "(\<lambda>n. par_thickness (P0 n)) = (\<lambda>n. par_thickness (storage n))"
    by (auto simp add: P0)
  have P1: "par_node_type (P1 m) =
            of_nat (icy_count icy info (\<lambda>n. par_thickness (storage n)) min_thickness m)"
    if "owned_node info m"
    unfolding P1_def fold_count_element_apply thk icy_count_local_elements
    using that by (simp add: P0)
  have "compute_node_type code info min_thickness storage m =
        (if owned_node info m
         then (storage m) \<lparr> par_node_type :=
                code (node_type_of_count (c_int (par_node_type (P1 m)))) \<rparr>
         else storage m)"
    unfolding compute_node_type_def Let_def fold_set_node_type P0_def[symmetric] P1_def[symmetric]
    by (simp add: set_owned_nodes)
  then show ?thesis
    using P1 by (simp add: c_int_of_nat)
qed


text \<open>
  C3, as stated, fails where a thickness equals the threshold. With thickness 1
  everywhere and threshold 1 the source finds four icy elements around the node
  \<open>(1, 1)\<close> of a 3 by 3 grid and stores the code of \<open>NODE_INTERIOR\<close> (here \<open>-1\<close>); no
  thickness exceeds the threshold, so in the words of the claim no element is icy and
  the node is exterior.
\<close>

theorem node_type_at_threshold:
  "par_node_type
     (compute_node_type (\<lambda>c. case c of NODE_INTERIOR \<Rightarrow> - 1 | NODE_BOUNDARY \<Rightarrow> 0 | NODE_EXTERIOR \<Rightarrow> 1)
        \<lparr> i_xs = 0, i_ys = 0, i_xm = 3, i_ym = 3, i_gxs = 0, i_gys = 0, i_gxm = 3, i_gym = 3 \<rparr> 1
        (\<lambda>n. \<lparr> par_bed = 0, par_thickness = 1, par_node_type = 0 \<rparr>) (1, 1)) = - 1 \<and>
   node_type_of_count
     (int (icy_count icy_strict
        \<lparr> i_xs = 0, i_ys = 0, i_xm = 3, i_ym = 3, i_gxs = 0, i_gys = 0, i_gxm = 3, i_gym = 3 \<rparr>
        (\<lambda>n. 1) 1 (1, 1))) = NODE_EXTERIOR"
  by (simp add: compute_node_type_apply owned_node_def icy_count_def incident_elements_def
      in_element_range_def icy_def icy_strict_def node_type_of_count_def)

text \<open>
  C3, amended. At every owned node \<open>compute_node_type\<close> stores \<open>NODE_INTERIOR\<close> when four
  incident elements are icy, \<open>NODE_EXTERIOR\<close> when none is, and \<open>NODE_BOUNDARY\<close> otherwise,
  where an element is icy when each of its four nodal thicknesses is at least the
  threshold. The result depends on the thickness only, and classifying again gives
  the same storage.
\<close>

theorem node_type_classification:
  assumes "owned_node info n"
  shows "par_node_type (compute_node_type code info min_thickness storage n) =
           code (if icy_count icy info (\<lambda>m. par_thickness (storage m)) min_thickness n = 4
                 then NODE_INTERIOR
                 else if icy_count icy info (\<lambda>m. par_thickness (storage m)) min_thickness n = 0
                 then NODE_EXTERIOR
                 else NODE_BOUNDARY) \<and>
         ((\<lambda>m. par_thickness (storage' m)) = (\<lambda>m. par_thickness (storage m)) \<longrightarrow>
            par_node_type (compute_node_type code info min_thickness storage' n) =
            par_node_type (compute_node_type code info min_thickness storage n)) \<and>
         compute_node_type code info min_thickness
           (compute_node_type code info min_thickness storage) =
         compute_node_type code info min_thickness storage"
proof (intro conjI impI)
  show "par_node_type (compute_node_type code info min_thickness storage n) =
           code (if icy_count icy info (\<lambda>m. par_thickness (storage m)) min_thickness n = 4
                 then NODE_INTERIOR
                 else if icy_count icy info (\<lambda>m. par_thickness (storage m)) min_thickness n = 0
                 then NODE_EXTERIOR
                 else NODE_BOUNDARY)"
    using assms by (simp add: compute_node_type_apply node_type_of_count_def)
next
  assume "(\<lambda>m. par_thickness (storage' m)) = (\<lambda>m. par_thickness (storage m))"
  then show "par_node_type (compute_node_type code info min_thickness storage' n) =
            par_node_type (compute_node_type code info min_thickness storage n)"
    using assms by (simp add: compute_node_type_apply)
next
  have thk: "(\<lambda>m. par_thickness (compute_node_type code info min_thickness storage m)) =
             (\<lambda>m. par_thickness (storage m))"
    by (auto simp add: compute_node_type_apply)
  show "compute_node_type code info min_thickness
           (compute_node_type code info min_thickness storage) =
         compute_node_type code info min_thickness storage"
  proof
    fix m
    show "compute_node_type code info min_thickness
           (compute_node_type code info min_thickness storage) m =
         compute_node_type code info min_thickness storage m"
      unfolding compute_node_type_apply[of code info min_thickness
          "compute_node_type code info min_thickness storage"] thk
      by (simp add: compute_node_type_apply)
  qed
qed

theorem node_type_classification_witness:
  "owned_node \<lparr> i_xs = 0, i_ys = 0, i_xm = 3, i_ym = 3, i_gxs = 0, i_gys = 0, i_gxm = 3, i_gym = 3 \<rparr> (1, 1) \<and>
   par_node_type
     (compute_node_type (\<lambda>c. case c of NODE_INTERIOR \<Rightarrow> - 1 | NODE_BOUNDARY \<Rightarrow> 0 | NODE_EXTERIOR \<Rightarrow> 1)
        \<lparr> i_xs = 0, i_ys = 0, i_xm = 3, i_ym = 3, i_gxs = 0, i_gys = 0, i_gxm = 3, i_gym = 3 \<rparr> 1
        (\<lambda>n. \<lparr> par_bed = 0, par_thickness = (if fst n \<le> 1 then 2 else 0), par_node_type = 0 \<rparr>) (1, 1)) = 0 \<and>
   par_node_type
     (compute_node_type (\<lambda>c. case c of NODE_INTERIOR \<Rightarrow> - 1 | NODE_BOUNDARY \<Rightarrow> 0 | NODE_EXTERIOR \<Rightarrow> 1)
        \<lparr> i_xs = 0, i_ys = 0, i_xm = 3, i_ym = 3, i_gxs = 0, i_gys = 0, i_gxm = 3, i_gym = 3 \<rparr> 1
        (\<lambda>n. \<lparr> par_bed = 5, par_thickness = (if fst n \<le> 1 then 2 else 0), par_node_type = 9 \<rparr>) (1, 1)) = 0 \<and>
   compute_node_type (\<lambda>c. case c of NODE_INTERIOR \<Rightarrow> - 1 | NODE_BOUNDARY \<Rightarrow> 0 | NODE_EXTERIOR \<Rightarrow> 1)
        \<lparr> i_xs = 0, i_ys = 0, i_xm = 3, i_ym = 3, i_gxs = 0, i_gys = 0, i_gxm = 3, i_gym = 3 \<rparr> 1
     (compute_node_type (\<lambda>c. case c of NODE_INTERIOR \<Rightarrow> - 1 | NODE_BOUNDARY \<Rightarrow> 0 | NODE_EXTERIOR \<Rightarrow> 1)
        \<lparr> i_xs = 0, i_ys = 0, i_xm = 3, i_ym = 3, i_gxs = 0, i_gys = 0, i_gxm = 3, i_gym = 3 \<rparr> 1
        (\<lambda>n. \<lparr> par_bed = 0, par_thickness = (if fst n \<le> 1 then 2 else 0), par_node_type = 0 \<rparr>)) =
   compute_node_type (\<lambda>c. case c of NODE_INTERIOR \<Rightarrow> - 1 | NODE_BOUNDARY \<Rightarrow> 0 | NODE_EXTERIOR \<Rightarrow> 1)
        \<lparr> i_xs = 0, i_ys = 0, i_xm = 3, i_ym = 3, i_gxs = 0, i_gys = 0, i_gxm = 3, i_gym = 3 \<rparr> 1
        (\<lambda>n. \<lparr> par_bed = 0, par_thickness = (if fst n \<le> 1 then 2 else 0), par_node_type = 0 \<rparr>)"
proof -
  define info where "info = \<lparr> i_xs = 0, i_ys = 0, i_xm = 3, i_ym = 3, i_gxs = 0, i_gys = 0, i_gxm = 3, i_gym = 3 \<rparr>"
  define code :: "NodeType \<Rightarrow> real" where "code = (\<lambda>c. case c of NODE_INTERIOR \<Rightarrow> - 1 | NODE_BOUNDARY \<Rightarrow> 0 | NODE_EXTERIOR \<Rightarrow> 1)"
  define G :: "int \<times> int \<Rightarrow> Parameters" where "G = (\<lambda>n. \<lparr> par_bed = 0, par_thickness = (if fst n \<le> 1 then 2 else 0), par_node_type = 0 \<rparr>)"
  define G' :: "int \<times> int \<Rightarrow> Parameters" where "G' = (\<lambda>n. \<lparr> par_bed = 5, par_thickness = (if fst n \<le> 1 then 2 else 0), par_node_type = 9 \<rparr>)"
  have h: "owned_node info (1, 1)"
    by (simp add: info_def owned_node_def)
  have t: "(\<lambda>m. par_thickness (G' m)) = (\<lambda>m. par_thickness (G m))"
    by (simp add: G_def G'_def)
  have c: "icy_count icy info (\<lambda>m. par_thickness (G m)) 1 (1, 1) = 2"
    by (simp add: icy_count_def incident_elements_def in_element_range_def icy_def
        info_def G_def)
  have r: "par_node_type (compute_node_type code info 1 G (1, 1)) = 0"
    using node_type_classification[OF h, of code 1 G G'] c by (simp add: code_def)
  have r': "par_node_type (compute_node_type code info 1 G' (1, 1)) = 0"
    using node_type_classification[OF h, of code 1 G G'] t r by simp
  have i: "compute_node_type code info 1 (compute_node_type code info 1 G) =
           compute_node_type code info 1 G"
    using node_type_classification[OF h, of code 1 G G'] by simp
  show ?thesis
    using h r r' i unfolding info_def code_def G_def G'_def by blast
qed

subsection \<open>Padding\<close>

lemma wrap32_id: "- (2 ^ 31) \<le> x \<Longrightarrow> x < 2 ^ 31 \<Longrightarrow> wrap32 x = x"
  by (simp add: wrap32_def)

lemma half_step:
  assumes "1 \<le> (k::int)"
  shows "(if k smod 2 \<noteq> 0 then k + 1 else k) sdiv 2 = (k - 1) div 2 + 1"
proof -
  have s: "k smod 2 = k mod 2"
    using assms by (simp add: signed_modulo_int_def sgn_if)
  have d: "\<And>m::int. 0 \<le> m \<Longrightarrow> m sdiv 2 = m div 2"
    by (auto simp add: signed_divide_int_def sgn_if)
  show ?thesis
    using assms by (auto simp: s d)
qed

lemma pad_loop_exact:
  "1 \<le> C \<Longrightarrow> 1 \<le> k \<Longrightarrow> C * 2 ^ n < 2 ^ 31 \<Longrightarrow> k < 2 ^ 31 - 1 \<Longrightarrow>
   pad_loop n C k = (C * 2 ^ n, (k - 1) div 2 ^ n + 1)"
proof (induction n arbitrary: C k)
  case 0
  then show ?case by simp
next
  case (Suc n)
  have C2: "wrap32 (C * 2) = C * 2"
  proof (rule wrap32_id)
    show "- (2 ^ 31) \<le> C * 2" using Suc.prems by simp
    have "(1::int) \<le> 2 ^ n" by simp
    then have "(2::int) \<le> 2 ^ Suc n" by simp
    then have "C * 2 \<le> C * 2 ^ Suc n"
      using Suc.prems by (intro mult_left_mono) auto
    then show "C * 2 < 2 ^ 31" using Suc.prems by linarith
  qed
  have k1: "(if k smod 2 \<noteq> 0 then wrap32 (k + 1) else k) =
            (if k smod 2 \<noteq> 0 then k + 1 else k)"
    using Suc.prems by (simp add: wrap32_id)
  define k' where "k' = (k - 1) div 2 + 1"
  have k'1: "1 \<le> k'" and k'2: "k' < 2 ^ 31 - 1" and k'3: "k' \<le> k"
    using Suc.prems by (simp_all add: k'_def)
  have "pad_loop (Suc n) C k = pad_loop n (C * 2) k'"
    unfolding pad_loop.simps C2 k1 half_step[OF \<open>1 \<le> k\<close>] k'_def ..
  also have "\<dots> = (C * 2 * 2 ^ n, (k' - 1) div 2 ^ n + 1)"
    using Suc.prems k'1 k'2 by (intro Suc.IH) (simp_all add: mult.assoc)
  also have "(k' - 1) div 2 ^ n = (k - 1) div 2 ^ Suc n"
    using Suc.prems by (simp add: k'_def zdiv_zmult2_eq)
  finally show ?case by (simp add: mult.assoc)
qed

text \<open>
  When some size \<open>N'\<close> at or above \<open>N\<close> with \<open>N' - 1\<close> divisible by \<open>2 ^ n_levels\<close> is an
  \<open>int\<close>, no operation of \<open>pad\<close> overflows, and \<open>N + pad(N, n_levels)\<close> is the least such
  size.
\<close>

lemma pad_divisible:
  assumes "2 \<le> N" and "0 \<le> n_levels"
    and "N \<le> N'" and "N' < 2 ^ 31" and "2 ^ nat n_levels dvd N' - 1"
  shows "0 \<le> pad N n_levels \<and> 2 ^ nat n_levels dvd (N + pad N n_levels) - 1 \<and>
         N + pad N n_levels \<le> N'"
proof -
  define n where "n = nat n_levels"
  define q :: int where "q = (N - 2) div 2 ^ n + 1"
  obtain c where c: "N' - 1 = 2 ^ n * c"
    using assms(5) unfolding n_def by (auto simp: dvd_def)
  have pw: "(0::int) < 2 ^ n" "(1::int) \<le> 2 ^ n" by simp_all
  have c1: "1 \<le> c"
  proof (rule ccontr)
    assume "\<not> 1 \<le> c"
    then have "c \<le> 0" by simp
    then have "2 ^ n * c \<le> 0" using pw by (simp add: mult_le_0_iff)
    then show False using c assms by linarith
  qed
  have "(2::int) ^ n * 1 \<le> 2 ^ n * c"
    using c1 pw by (intro mult_left_mono) auto
  then have P31: "(2::int) ^ n < 2 ^ 31" using c assms by linarith
  have N31: "N < 2 ^ 31" using assms by linarith
  have k: "wrap32 (N - 1) = N - 1"
    using assms N31 by (intro wrap32_id) linarith+
  have loop: "pad_loop n 1 (N - 1) = (2 ^ n, q)"
    using pad_loop_exact[of 1 "N - 1" n] assms P31 N31 by (simp add: q_def)
  define d where "d = (N - 2) div 2 ^ n"
  define m where "m = (N - 2) mod 2 ^ n"
  have dm: "N - 2 = 2 ^ n * d + m" and m0: "0 \<le> m" and m1: "m < 2 ^ n"
    by (simp_all add: d_def m_def)
  have q: "2 ^ n * q = 2 ^ n * d + 2 ^ n"
    by (simp add: q_def d_def algebra_simps)
  have qlo: "N - 1 \<le> 2 ^ n * q"
    using dm m1 q by linarith
  have "2 ^ n * d < 2 ^ n * c"
    using dm m0 c assms by linarith
  then have "d < c" using pw by (simp add: mult_less_cancel_left_pos)
  then have "d + 1 \<le> c" by simp
  then have "2 ^ n * (d + 1) \<le> 2 ^ n * c"
    using pw by (intro mult_left_mono) auto
  then have qhi: "2 ^ n * q \<le> N' - 1"
    using q c by (simp add: algebra_simps)
  have a: "wrap32 (2 ^ n * q) = 2 ^ n * q"
    using qlo qhi assms by (intro wrap32_id) linarith+
  have b: "wrap32 (2 ^ n * q + 1) = 2 ^ n * q + 1"
    using qlo qhi assms by (intro wrap32_id) linarith+
  have e: "wrap32 (2 ^ n * q + 1 - N) = 2 ^ n * q + 1 - N"
    using qlo qhi assms by (intro wrap32_id) linarith+
  have "pad N n_levels = 2 ^ n * q + 1 - N"
    using k loop a b e by (simp add: pad_def n_def)
  moreover have "0 \<le> 2 ^ n * q + 1 - N" using qlo by simp
  moreover have "2 ^ n dvd (N + (2 ^ n * q + 1 - N)) - 1" by simp
  moreover have "N + (2 ^ n * q + 1 - N) \<le> N'" using qhi by simp
  ultimately show ?thesis unfolding n_def by simp
qed

lemma pad_last_block:
  "l \<noteq> [] \<Longrightarrow> l[length l - 1 := v] = butlast l @ [v]" for l :: "int list"
  by (induction l rule: rev_induct) simp_all

lemma pad_values: "pad 5 2 = 0 \<and> pad 6 2 = 3 \<and> pad 3 2 = 2 \<and> pad 1073741825 30 = 0"
  by code_simp

text \<open>
  C9, as stated for every level count, fails. The number of levels comes from the
  configuration and is passed to \<open>pad\<close> as it is; \<open>pad(2, 32)\<close> computes \<open>C = 2\<^sup>3\<^sup>2\<close>,
  which is \<open>0\<close> in 32 bits, and returns \<open>(0 * 1 + 1) - 2 = -1\<close>, a negative padding. (At
  \<open>pad(2, 31)\<close> the factor \<open>C\<close> and the last subtraction both wrap around and the result
  is \<open>2\<^sup>3\<^sup>1 - 1\<close>; the padded size \<open>2 + (2\<^sup>3\<^sup>1 - 1)\<close> is then not an \<open>int\<close>.)
\<close>

theorem pad_overflow:
  "(2::int) \<le> 2 \<and> (0::int) \<le> 32 \<and> pad 2 32 = - 1 \<and> pad 2 31 = 2147483647 \<and>
   wrap32 (2 + pad 2 31) = - 2147483647"
  by code_simp

text \<open>
  C9, amended. Let the grid sizes \<open>Mx, My, Mz \<ge> 2\<close> and the level count \<open>n_levels \<ge> 0\<close> be
  such that a padded size exists in the range of \<open>int\<close>: for each size \<open>M\<close> there is some
  \<open>M' \<ge> M\<close>, \<open>M' < 2\<^sup>3\<^sup>1\<close>, with \<open>M' - 1\<close> divisible by \<open>2 ^ n_levels\<close>. Then \<open>pad\<close> returns
  a non-negative padding \<open>p\<close> such that \<open>(M + p) - 1\<close> is divisible by \<open>2 ^ n_levels\<close>, and
  \<open>M + p\<close> is the least such size. The setup adds the padding to the last ownership
  block and to the upper bound of the domain only: the other blocks and the lower
  bounds \<open>- Lx\<close>, \<open>- Ly\<close> stay as they are. (The last blocks are between \<open>0\<close> and the grid
  size, as the blocks of a grid are.)
\<close>

theorem pad_divisible_upper_edge:
  assumes "2 \<le> Mx" and "2 \<le> My" and "2 \<le> Mz" and "0 \<le> n_levels"
    and "Mx \<le> Mx'" and "Mx' < 2 ^ 31" and "2 ^ nat n_levels dvd Mx' - 1"
    and "My \<le> My'" and "My' < 2 ^ 31" and "2 ^ nat n_levels dvd My' - 1"
    and "Mz \<le> Mz'" and "Mz' < 2 ^ 31" and "2 ^ nat n_levels dvd Mz' - 1"
    and "lx \<noteq> []" and "0 \<le> last lx" and "last lx \<le> Mx"
    and "ly \<noteq> []" and "0 \<le> last ly" and "last ly \<le> My"
  shows "0 \<le> pad Mx n_levels \<and> 2 ^ nat n_levels dvd (Mx + pad Mx n_levels) - 1 \<and>
         Mx + pad Mx n_levels \<le> Mx' \<and>
         0 \<le> pad My n_levels \<and> 2 ^ nat n_levels dvd (My + pad My n_levels) - 1 \<and>
         My + pad My n_levels \<le> My' \<and>
         0 \<le> pad Mz n_levels \<and> 2 ^ nat n_levels dvd (Mz + pad Mz n_levels) - 1 \<and>
         Mz + pad Mz n_levels \<le> Mz' \<and>
         domain_padding Mx My Mz lx ly Lx Ly dx dy n_levels =
           Some \<lparr> p_Mx = Mx + pad Mx n_levels, p_My = My + pad My n_levels,
                  p_Mz = Mz + pad Mz n_levels,
                  p_lx = butlast lx @ [last lx + pad Mx n_levels],
                  p_ly = butlast ly @ [last ly + pad My n_levels],
                  p_x_min = - Lx, p_x_max = Lx + of_int (pad Mx n_levels) * dx,
                  p_y_min = - Ly, p_y_max = Ly + of_int (pad My n_levels) * dy \<rparr>"
proof -
  define px where "px = pad Mx n_levels"
  define py where "py = pad My n_levels"
  define pz where "pz = pad Mz n_levels"
  have px: "0 \<le> px" "2 ^ nat n_levels dvd (Mx + px) - 1" "Mx + px \<le> Mx'"
    unfolding px_def using pad_divisible[of Mx n_levels Mx'] assms by simp_all
  have py: "0 \<le> py" "2 ^ nat n_levels dvd (My + py) - 1" "My + py \<le> My'"
    unfolding py_def using pad_divisible[of My n_levels My'] assms by simp_all
  have pz: "0 \<le> pz" "2 ^ nat n_levels dvd (Mz + pz) - 1" "Mz + pz \<le> Mz'"
    unfolding pz_def using pad_divisible[of Mz n_levels Mz'] assms by simp_all
  have w: "wrap32 (Mx + px) = Mx + px" "wrap32 (My + py) = My + py"
    "wrap32 (Mz + pz) = Mz + pz"
    "wrap32 (last lx + px) = last lx + px" "wrap32 (last ly + py) = last ly + py"
    using assms px py pz by (intro wrap32_id; linarith)+
  have l: "lx ! (length lx - 1) = last lx" "ly ! (length ly - 1) = last ly"
    using assms by (simp_all add: last_conv_nth)
  have "domain_padding Mx My Mz lx ly Lx Ly dx dy n_levels =
        Some \<lparr> p_Mx = Mx + px, p_My = My + py, p_Mz = Mz + pz,
               p_lx = butlast lx @ [last lx + px],
               p_ly = butlast ly @ [last ly + py],
               p_x_min = - Lx, p_x_max = Lx + of_int px * dx,
               p_y_min = - Ly, p_y_max = Ly + of_int py * dy \<rparr>"
    using assms(14,17)
    by (simp add: domain_padding_def Let_def px_def[symmetric] py_def[symmetric]
        pz_def[symmetric] l[unfolded One_nat_def] w pad_last_block[unfolded One_nat_def])
  with px py pz show ?thesis
    unfolding px_def py_def pz_def by simp
qed

theorem pad_divisible_upper_edge_witness:
  "(2::int) \<le> 5 \<and> (2::int) \<le> 6 \<and> (2::int) \<le> 3 \<and> (0::int) \<le> 2 \<and>
   (5::int) \<le> 5 \<and> (5::int) < 2 ^ 31 \<and> (2::int) ^ nat 2 dvd 5 - 1 \<and>
   (6::int) \<le> 9 \<and> (9::int) < 2 ^ 31 \<and> (2::int) ^ nat 2 dvd 9 - 1 \<and>
   (3::int) \<le> 5 \<and> (5::int) < 2 ^ 31 \<and> (2::int) ^ nat 2 dvd 5 - 1 \<and>
   [2, 3 :: int] \<noteq> [] \<and> (0::int) \<le> last [2, 3] \<and> last [2, 3] \<le> (5::int) \<and>
   [6 :: int] \<noteq> [] \<and> (0::int) \<le> last [6] \<and> last [6] \<le> (6::int) \<and>
   0 \<le> pad 5 2 \<and> 2 ^ nat 2 dvd (5 + pad 5 2) - 1 \<and> 5 + pad 5 2 \<le> 5 \<and>
   0 \<le> pad 6 2 \<and> 2 ^ nat 2 dvd (6 + pad 6 2) - 1 \<and> 6 + pad 6 2 \<le> 9 \<and>
   0 \<le> pad 3 2 \<and> 2 ^ nat 2 dvd (3 + pad 3 2) - 1 \<and> 3 + pad 3 2 \<le> 5 \<and>
   domain_padding 5 6 3 [2, 3] [6] 1 1 (1 / 2) (2 / 5) 2 =
     Some \<lparr> p_Mx = 5 + pad 5 2, p_My = 6 + pad 6 2, p_Mz = 3 + pad 3 2,
            p_lx = butlast [2, 3] @ [last [2, 3] + pad 5 2],
            p_ly = butlast [6] @ [last [6] + pad 6 2],
            p_x_min = - 1, p_x_max = 1 + of_int (pad 5 2) * (1 / 2),
            p_y_min = - 1, p_y_max = 1 + of_int (pad 6 2) * (2 / 5) \<rparr>"
proof -
  have h: "(2::int) \<le> 5" "(2::int) \<le> 6" "(2::int) \<le> 3" "(0::int) \<le> 2"
    "(5::int) \<le> 5" "(5::int) < 2 ^ 31" "(2::int) ^ nat 2 dvd 5 - 1"
    "(6::int) \<le> 9" "(9::int) < 2 ^ 31" "(2::int) ^ nat 2 dvd 9 - 1"
    "(3::int) \<le> 5" "(5::int) < 2 ^ 31" "(2::int) ^ nat 2 dvd 5 - 1"
    "[2, 3 :: int] \<noteq> []" "(0::int) \<le> last [2, 3]" "last [2, 3] \<le> (5::int)"
    "[6 :: int] \<noteq> []" "(0::int) \<le> last [6]" "last [6] \<le> (6::int)"
    by simp_all
  from pad_divisible_upper_edge[OF h, of 1 1 "1 / 2" "2 / 5"] h show ?thesis
    by blast
qed

subsection \<open>Narrow ice tongues\<close>

lemma neighbors_defined:
  "\<not> ice_free (cell_type geometry (i, j)) \<Longrightarrow> neighbors_ice_free geometry i j \<noteq> None"
  by (cases "cell_type geometry (i, j)")
    (simp_all add: neighbors_ice_free_def int_box_def Let_def ice_free_def grounded_ice_def
      floating_ice_def)

lemma tongue_body_eq:
  "tongue_body geometry p H = Some (if removed geometry p then H (p := 0) else H)"
proof (cases "ice_free (cell_type geometry p)")
  case True
  then show ?thesis by (simp add: tongue_body_def removed_def Let_def)
next
  case False
  then obtain f where "neighbors_ice_free geometry (fst p) (snd p) = Some f"
    using neighbors_defined[of geometry "fst p" "snd p"] by auto
  then show ?thesis by (simp add: tongue_body_def removed_def Let_def)
qed

lemma tongue_loop_eq:
  "tongue_loop geometry ps H =
     Some (\<lambda>p. if p \<in> set ps \<and> removed geometry p then 0 else H p)"
proof (induction ps arbitrary: H)
  case Nil
  then show ?case by simp
next
  case (Cons q ps)
  show ?case
    by (auto simp add: tongue_body_eq Cons.IH fun_eq_iff)
qed

lemma owned_visited:
  assumes "1 \<le> g_xm grid" and "1 \<le> g_ym grid"
  shows "set (Points_loop grid) = owned grid"
  unfolding points_product[OF assms] owned_def
  by (simp only: set_product set_upto_lessThan)

lemma remove_narrow_tongues_eq:
  assumes "1 \<le> g_xm grid" and "1 \<le> g_ym grid"
  shows "remove_narrow_tongues grid geometry H =
         Some (\<lambda>p. if p \<in> owned grid \<and> removed geometry p then 0 else H p)"
  by (simp add: remove_narrow_tongues_def tongue_loop_eq owned_visited[OF assms])


text \<open>
  C5, as stated, fails. A grounded cell below sea level, all eight neighbours of which
  are ice-free ocean (the pure nose), keeps its thickness: every disjunct of the
  condition asks for one neighbour that is not ice-free. And a grounded cell whose
  bed is not below sea level is skipped, also in the configuration with ice to the west.
\<close>

theorem tongue_nose_kept:
  "map_option (\<lambda>H. H (1, 1))
     (remove_narrow_tongues
        \<lparr> g_xs = 0, g_xm = 3, g_ys = 0, g_ym = 3, g_Mx = 3, g_My = 3,
          g_periodicity = NOT_PERIODIC \<rparr>
        \<lparr> cell_type = (\<lambda>p. if p = (1, 1) then MASK_GROUNDED else MASK_ICE_FREE_OCEAN),
          bed_elevation = (\<lambda>p. - 1), sea_level_elevation = (\<lambda>p. 0) \<rparr>
        (\<lambda>p. 100)) = Some 100 \<and>
   map_option (\<lambda>H. H (1, 1))
     (remove_narrow_tongues
        \<lparr> g_xs = 0, g_xm = 3, g_ys = 0, g_ym = 3, g_Mx = 3, g_My = 3,
          g_periodicity = NOT_PERIODIC \<rparr>
        \<lparr> cell_type = (\<lambda>p. if p = (1, 1) \<or> p = (0, 1) then MASK_GROUNDED
                            else MASK_ICE_FREE_OCEAN),
          bed_elevation = (\<lambda>p. 1), sea_level_elevation = (\<lambda>p. 0) \<rparr>
        (\<lambda>p. 100)) = Some 100"
  by code_simp


lemma removed_west_tongue:
  assumes "grounded_ice (cell_type geometry (i, j))"
    and "bed_elevation geometry (i, j) < sea_level_elevation geometry (i, j)"
    and "ice_free_ocean (cell_type geometry (i, j + 1))"
    and "ice_free_ocean (cell_type geometry (i, j - 1))"
    and "ice_free_ocean (cell_type geometry (i + 1, j))"
    and "ice_free_ocean (cell_type geometry (i - 1, j + 1))"
    and "ice_free_ocean (cell_type geometry (i - 1, j - 1))"
    and "\<not> ice_free_ocean (cell_type geometry (i - 1, j))"
  shows "removed geometry (i, j)"
  using assms
  by (simp add: removed_def neighbors_ice_free_def int_box_def Let_def narrow_tongue_def
      ice_free_def grounded_ice_def)

lemma not_removed_nose:
  assumes "ice_free_ocean (cell_type geometry (i, j + 1))"
    and "ice_free_ocean (cell_type geometry (i, j - 1))"
    and "ice_free_ocean (cell_type geometry (i + 1, j))"
    and "ice_free_ocean (cell_type geometry (i - 1, j))"
  shows "\<not> removed geometry (i, j)"
  using assms
  by (auto simp add: removed_def neighbors_ice_free_def int_box_def Let_def narrow_tongue_def
      ice_free_def ice_free_ocean_def split: option.splits if_splits)

lemma not_removed_opposite:
  assumes "(\<not> ice_free (cell_type geometry (i - 1, j)) \<and> \<not> ice_free (cell_type geometry (i + 1, j))) \<or>
           (\<not> ice_free (cell_type geometry (i, j + 1)) \<and> \<not> ice_free (cell_type geometry (i, j - 1))) \<or>
           (\<not> ice_free (cell_type geometry (i - 1, j + 1)) \<and> \<not> ice_free (cell_type geometry (i + 1, j - 1))) \<or>
           (\<not> ice_free (cell_type geometry (i + 1, j + 1)) \<and> \<not> ice_free (cell_type geometry (i - 1, j - 1)))"
  shows "\<not> removed geometry (i, j)"
proof
  assume r: "removed geometry (i, j)"
  then obtain f where f: "neighbors_ice_free geometry i j = Some f" and t: "narrow_tongue f"
    by (auto simp: removed_def split: option.splits)
  have sub: "\<And>v. ice_free_ocean v \<Longrightarrow> ice_free v"
    by (simp add: ice_free_def ice_free_ocean_def)
  have imp: "b_w f \<longrightarrow> ice_free (cell_type geometry (i - 1, j))"
    "b_e f \<longrightarrow> ice_free (cell_type geometry (i + 1, j))"
    "b_n f \<longrightarrow> ice_free (cell_type geometry (i, j + 1))"
    "b_s f \<longrightarrow> ice_free (cell_type geometry (i, j - 1))"
    "b_nw f \<longrightarrow> ice_free (cell_type geometry (i - 1, j + 1))"
    "b_se f \<longrightarrow> ice_free (cell_type geometry (i + 1, j - 1))"
    "b_ne f \<longrightarrow> ice_free (cell_type geometry (i + 1, j + 1))"
    "b_sw f \<longrightarrow> ice_free (cell_type geometry (i - 1, j - 1))"
    using f sub
    by (auto simp: neighbors_ice_free_def int_box_def Let_def split: if_splits)
  show False
    using t assms imp unfolding narrow_tongue_def by blast
qed

text \<open>
  C5, amended. On a grid with a non-empty patch, \<open>remove_narrow_tongues\<close> returns, and
  at an owned cell \<open>(i, j)\<close>:
  a grounded cell with bed below sea level whose N, S, E, NE, NW, SE and SW neighbours
  are ice-free ocean and whose W neighbour is not has its thickness set to zero;
  a grounded cell all eight neighbours of which are ice-free ocean keeps its thickness;
  and a cell with two opposite neighbours (W and E, N and S, NW and SE, or NE and SW)
  that are not ice-free keeps its thickness.
\<close>

theorem narrow_tongue_removal:
  assumes "1 \<le> g_xm grid" and "1 \<le> g_ym grid" and "(i, j) \<in> owned grid"
  shows "\<exists>H'. remove_narrow_tongues grid geometry H = Some H' \<and>
      (grounded_ice (cell_type geometry (i, j)) \<and>
       bed_elevation geometry (i, j) < sea_level_elevation geometry (i, j) \<and>
       ice_free_ocean (cell_type geometry (i, j + 1)) \<and>
       ice_free_ocean (cell_type geometry (i, j - 1)) \<and>
       ice_free_ocean (cell_type geometry (i + 1, j)) \<and>
       ice_free_ocean (cell_type geometry (i + 1, j + 1)) \<and>
       ice_free_ocean (cell_type geometry (i - 1, j + 1)) \<and>
       ice_free_ocean (cell_type geometry (i + 1, j - 1)) \<and>
       ice_free_ocean (cell_type geometry (i - 1, j - 1)) \<and>
       \<not> ice_free_ocean (cell_type geometry (i - 1, j)) \<longrightarrow> H' (i, j) = 0) \<and>
      (grounded_ice (cell_type geometry (i, j)) \<and>
       ice_free_ocean (cell_type geometry (i, j + 1)) \<and>
       ice_free_ocean (cell_type geometry (i, j - 1)) \<and>
       ice_free_ocean (cell_type geometry (i + 1, j)) \<and>
       ice_free_ocean (cell_type geometry (i + 1, j + 1)) \<and>
       ice_free_ocean (cell_type geometry (i - 1, j + 1)) \<and>
       ice_free_ocean (cell_type geometry (i + 1, j - 1)) \<and>
       ice_free_ocean (cell_type geometry (i - 1, j - 1)) \<and>
       ice_free_ocean (cell_type geometry (i - 1, j)) \<longrightarrow> H' (i, j) = H (i, j)) \<and>
      ((\<not> ice_free (cell_type geometry (i - 1, j)) \<and> \<not> ice_free (cell_type geometry (i + 1, j))) \<or>
       (\<not> ice_free (cell_type geometry (i, j + 1)) \<and> \<not> ice_free (cell_type geometry (i, j - 1))) \<or>
       (\<not> ice_free (cell_type geometry (i - 1, j + 1)) \<and> \<not> ice_free (cell_type geometry (i + 1, j - 1))) \<or>
       (\<not> ice_free (cell_type geometry (i + 1, j + 1)) \<and> \<not> ice_free (cell_type geometry (i - 1, j - 1)))
       \<longrightarrow> H' (i, j) = H (i, j))"
proof -
  define H' where "H' = (\<lambda>p. if p \<in> owned grid \<and> removed geometry p then 0 else H p)"
  have r: "remove_narrow_tongues grid geometry H = Some H'"
    unfolding H'_def by (rule remove_narrow_tongues_eq[OF assms(1,2)])
  have v: "H' (i, j) = (if removed geometry (i, j) then 0 else H (i, j))"
    using assms(3) by (simp add: H'_def)
  show ?thesis
  proof (intro exI[of _ H'] conjI impI)
    show "remove_narrow_tongues grid geometry H = Some H'" by (rule r)
  next
    assume "grounded_ice (cell_type geometry (i, j)) \<and>
       bed_elevation geometry (i, j) < sea_level_elevation geometry (i, j) \<and>
       ice_free_ocean (cell_type geometry (i, j + 1)) \<and>
       ice_free_ocean (cell_type geometry (i, j - 1)) \<and>
       ice_free_ocean (cell_type geometry (i + 1, j)) \<and>
       ice_free_ocean (cell_type geometry (i + 1, j + 1)) \<and>
       ice_free_ocean (cell_type geometry (i - 1, j + 1)) \<and>
       ice_free_ocean (cell_type geometry (i + 1, j - 1)) \<and>
       ice_free_ocean (cell_type geometry (i - 1, j - 1)) \<and>
       \<not> ice_free_ocean (cell_type geometry (i - 1, j))"
    then have "removed geometry (i, j)"
      by (intro removed_west_tongue) simp_all
    then show "H' (i, j) = 0" by (simp add: v)
  next
    assume "grounded_ice (cell_type geometry (i, j)) \<and>
       ice_free_ocean (cell_type geometry (i, j + 1)) \<and>
       ice_free_ocean (cell_type geometry (i, j - 1)) \<and>
       ice_free_ocean (cell_type geometry (i + 1, j)) \<and>
       ice_free_ocean (cell_type geometry (i + 1, j + 1)) \<and>
       ice_free_ocean (cell_type geometry (i - 1, j + 1)) \<and>
       ice_free_ocean (cell_type geometry (i + 1, j - 1)) \<and>
       ice_free_ocean (cell_type geometry (i - 1, j - 1)) \<and>
       ice_free_ocean (cell_type geometry (i - 1, j))"
    then have "\<not> removed geometry (i, j)"
      by (intro not_removed_nose) simp_all
    then show "H' (i, j) = H (i, j)" by (simp add: v)
  next
    assume "(\<not> ice_free (cell_type geometry (i - 1, j)) \<and> \<not> ice_free (cell_type geometry (i + 1, j))) \<or>
       (\<not> ice_free (cell_type geometry (i, j + 1)) \<and> \<not> ice_free (cell_type geometry (i, j - 1))) \<or>
       (\<not> ice_free (cell_type geometry (i - 1, j + 1)) \<and> \<not> ice_free (cell_type geometry (i + 1, j - 1))) \<or>
       (\<not> ice_free (cell_type geometry (i + 1, j + 1)) \<and> \<not> ice_free (cell_type geometry (i - 1, j - 1)))"
    then have "\<not> removed geometry (i, j)"
      by (rule not_removed_opposite)
    then show "H' (i, j) = H (i, j)" by (simp add: v)
  qed
qed


theorem narrow_tongue_removal_witness:
  "(\<exists>H'. remove_narrow_tongues
        \<lparr> g_xs = 0, g_xm = 3, g_ys = 0, g_ym = 3, g_Mx = 3, g_My = 3,
          g_periodicity = NOT_PERIODIC \<rparr>
        \<lparr> cell_type = (\<lambda>p. if p = (1, 1) \<or> p = (0, 1) then MASK_GROUNDED else MASK_ICE_FREE_OCEAN),
          bed_elevation = (\<lambda>p. - 1), sea_level_elevation = (\<lambda>p. 0) \<rparr>
        (\<lambda>p. 100) = Some H' \<and> H' (1, 1) = 0) \<and>
   (\<exists>H'. remove_narrow_tongues
        \<lparr> g_xs = 0, g_xm = 3, g_ys = 0, g_ym = 3, g_Mx = 3, g_My = 3,
          g_periodicity = NOT_PERIODIC \<rparr>
        \<lparr> cell_type = (\<lambda>p. if p = (1, 1) then MASK_GROUNDED else MASK_ICE_FREE_OCEAN),
          bed_elevation = (\<lambda>p. - 1), sea_level_elevation = (\<lambda>p. 0) \<rparr>
        (\<lambda>p. 100) = Some H' \<and> H' (1, 1) = 100) \<and>
   (\<exists>H'. remove_narrow_tongues
        \<lparr> g_xs = 0, g_xm = 3, g_ys = 0, g_ym = 3, g_Mx = 3, g_My = 3,
          g_periodicity = NOT_PERIODIC \<rparr>
        \<lparr> cell_type = (\<lambda>p. if p = (1, 1) \<or> p = (0, 1) \<or> p = (2, 1) then MASK_GROUNDED else MASK_ICE_FREE_OCEAN),
          bed_elevation = (\<lambda>p. - 1), sea_level_elevation = (\<lambda>p. 0) \<rparr>
        (\<lambda>p. 100) = Some H' \<and> H' (1, 1) = 100)"
proof -
  define G where "G = \<lparr> g_xs = 0, g_xm = 3, g_ys = 0, g_ym = 3, g_Mx = 3, g_My = 3,
          g_periodicity = NOT_PERIODIC \<rparr>"
  define gA where "gA = \<lparr> cell_type = (\<lambda>p. if p = (1, 1) \<or> p = (0, 1) then MASK_GROUNDED else MASK_ICE_FREE_OCEAN),
          bed_elevation = (\<lambda>p. - 1), sea_level_elevation = (\<lambda>p. 0) \<rparr>"
  define gB where "gB = \<lparr> cell_type = (\<lambda>p. if p = (1, 1) then MASK_GROUNDED else MASK_ICE_FREE_OCEAN),
          bed_elevation = (\<lambda>p. - 1), sea_level_elevation = (\<lambda>p. 0) \<rparr>"
  define gC where "gC = \<lparr> cell_type = (\<lambda>p. if p = (1, 1) \<or> p = (0, 1) \<or> p = (2, 1) then MASK_GROUNDED else MASK_ICE_FREE_OCEAN),
          bed_elevation = (\<lambda>p. - 1), sea_level_elevation = (\<lambda>p. 0) \<rparr>"
  have h: "1 \<le> g_xm G" "1 \<le> g_ym G" "(1, 1) \<in> owned G"
    by (simp_all add: G_def owned_def)
  have a: "\<exists>H'. remove_narrow_tongues G gA (\<lambda>p. 100) = Some H' \<and> H' (1, 1) = 0"
    using narrow_tongue_removal[OF h, of gA "\<lambda>p. 100"]
    by (auto simp add: gA_def grounded_ice_def ice_free_ocean_def)
  have b: "\<exists>H'. remove_narrow_tongues G gB (\<lambda>p. 100) = Some H' \<and> H' (1, 1) = 100"
    using narrow_tongue_removal[OF h, of gB "\<lambda>p. 100"]
    by (auto simp add: gB_def grounded_ice_def ice_free_ocean_def)
  have c: "\<exists>H'. remove_narrow_tongues G gC (\<lambda>p. 100) = Some H' \<and> H' (1, 1) = 100"
    using narrow_tongue_removal[OF h, of gC "\<lambda>p. 100"]
    by (auto simp add: gC_def ice_free_def)
  show ?thesis
    using a b c unfolding G_def gA_def gB_def gC_def by blast
qed

subsection \<open>Symmetry of the element Jacobian\<close>

lemma K_add_apply:
  "K_add rnd K r c x r' c' = (if r' = r \<and> c' = c then rnd (K r c + x) else K r' c')"
  by (simp add: K_add_def fadd_def)

lemma K_set_apply:
  "K_set K r c x r' c' = (if r' = r \<and> c' = c then x else K r' c')"
  by (simp add: K_set_def)

lemma dof_index_eq:
  "(n * 2 = m * 2) = (n = m)" "(n * 2 + 1 = m * 2 + 1) = (n = m)"
  "n * 2 \<noteq> m * 2 + 1" "n * 2 + 1 \<noteq> m * 2"
  "(Suc (n * 2) = Suc (m * 2)) = (n = m)"
  "n * 2 \<noteq> Suc (m * 2)" "Suc (n * 2) \<noteq> m * 2"
  for n m :: nat
  by presburger+

lemma eight_updates:
  "K_add rnd (K_add rnd (K_add rnd (K_add rnd (K_add rnd (K_add rnd (K_add rnd (K_add rnd K
       (t * 2 + 0) (s * 2 + 0) a1) (t * 2 + 0) (s * 2 + 1) a2)
       (t * 2 + 1) (s * 2 + 0) a3) (t * 2 + 1) (s * 2 + 1) a4)
       (t * 2 + 0) (s * 2 + 0) a5) (t * 2 + 0) (s * 2 + 1) a6)
       (t * 2 + 1) (s * 2 + 0) a7) (t * 2 + 1) (s * 2 + 1) a8 (n * 2) (n * 2 + 1) =
     (if n = t \<and> n = s then rnd (rnd (K (n * 2) (n * 2 + 1) + a2) + a6)
      else K (n * 2) (n * 2 + 1))"
  "K_add rnd (K_add rnd (K_add rnd (K_add rnd (K_add rnd (K_add rnd (K_add rnd (K_add rnd K
       (t * 2 + 0) (s * 2 + 0) a1) (t * 2 + 0) (s * 2 + 1) a2)
       (t * 2 + 1) (s * 2 + 0) a3) (t * 2 + 1) (s * 2 + 1) a4)
       (t * 2 + 0) (s * 2 + 0) a5) (t * 2 + 0) (s * 2 + 1) a6)
       (t * 2 + 1) (s * 2 + 0) a7) (t * 2 + 1) (s * 2 + 1) a8 (n * 2 + 1) (n * 2) =
     (if n = t \<and> n = s then rnd (rnd (K (n * 2 + 1) (n * 2) + a3) + a7)
      else K (n * 2 + 1) (n * 2))"
  by (auto simp add: K_add_apply dof_index_eq)

lemma four_updates:
  "K_add rnd (K_add rnd (K_add rnd (K_add rnd K
       (t * 2 + 0) (s * 2 + 0) a1) (t * 2 + 0) (s * 2 + 1) a2)
       (t * 2 + 1) (s * 2 + 0) a3) (t * 2 + 1) (s * 2 + 1) a4 (n * 2) (n * 2 + 1) =
     (if n = t \<and> n = s then rnd (K (n * 2) (n * 2 + 1) + a2) else K (n * 2) (n * 2 + 1))"
  "K_add rnd (K_add rnd (K_add rnd (K_add rnd K
       (t * 2 + 0) (s * 2 + 0) a1) (t * 2 + 0) (s * 2 + 1) a2)
       (t * 2 + 1) (s * 2 + 0) a3) (t * 2 + 1) (s * 2 + 1) a4 (n * 2 + 1) (n * 2) =
     (if n = t \<and> n = s then rnd (K (n * 2 + 1) (n * 2) + a3) else K (n * 2 + 1) (n * 2))"
  by (auto simp add: K_add_apply dof_index_eq)

text \<open>Exact arithmetic: the two off-diagonal entries of a diagonal block are equal.\<close>

lemma exact_ops:
  "fadd (\<lambda>x. x) a b = a + b" "fmul (\<lambda>x. x) a b = a * b"
  by (simp_all add: fadd_def fmul_def)

lemma picard_symmetric:
  fixes a b :: real
  shows "W * eta * (2 * a * b + b * a) = W * eta * (2 * b * a + a * b)"
  by (simp add: algebra_simps)

lemma newton_symmetric:
  fixes a b c :: real
  shows "W * (deta * (2 * vy * b + ux * b + 0.5 * a * (uy + vx) + 0.5 * vz * c)) *
           (a * (4 * ux + 2 * vy) + b * (uy + vx) + c * uz) =
         W * (deta * (2 * ux * a + vy * a + 0.5 * b * (uy + vx) + 0.5 * uz * c)) *
           (a * (uy + vx) + b * (4 * vy + 2 * ux) + c * vz)"
  by (simp add: field_simps)

lemma jacobian_f_entry_diagonal:
  assumes "\<And>n. K (n * 2) (n * 2 + 1) = K (n * 2 + 1) (n * 2)"
    and "s = t \<Longrightarrow> phi = psi"
  shows "jacobian_f_entry (\<lambda>x. x) psi phi W eta deta ux uy uz vx vy vz t s K (n * 2) (n * 2 + 1) =
         jacobian_f_entry (\<lambda>x. x) psi phi W eta deta ux uy uz vx vy vz t s K (n * 2 + 1) (n * 2)"
proof (cases "n = t \<and> n = s")
  case True
  then have "phi = psi" using assms(2) by simp
  then show ?thesis
    unfolding jacobian_f_entry_def Let_def eight_updates if_P[OF True] exact_ops
    using assms(1)[of n]
      picard_symmetric[of W eta "g_dx psi" "g_dy psi"]
      newton_symmetric[of W deta vy "g_dy psi" ux "g_dx psi" uy vx vz "g_dz psi" uz]
    by simp
next
  case False
  show ?thesis
    unfolding jacobian_f_entry_def Let_def eight_updates if_not_P[OF False]
    using assms(1)[of n] by simp
qed

lemma jacobian_f_point_diagonal:
  assumes "\<And>n. K (n * 2) (n * 2 + 1) = K (n * 2 + 1) (n * 2)"
  shows "jacobian_f_point (\<lambda>x. x) element velocity hardness effective_viscosity q K
           (n * 2) (n * 2 + 1) =
         jacobian_f_point (\<lambda>x. x) element velocity hardness effective_viscosity q K
           (n * 2 + 1) (n * 2)"
proof -
  let ?P = "\<lambda>K :: LocalMatrix. \<forall>n. K (n * 2) (n * 2 + 1) = K (n * 2 + 1) (n * 2)"
  have inner: "?P (fold (\<lambda>s K. jacobian_f_entry (\<lambda>x. x) (e_chi element q t) (e_chi element q s)
                    W eta deta ux uy uz vx vy vz t s K) xs K')"
    if "?P K'" for t xs K' W eta deta ux uy uz vx vy vz
    using that
  proof (induction xs arbitrary: K')
    case Nil
    then show ?case by simp
  next
    case (Cons s xs)
    have "?P (jacobian_f_entry (\<lambda>x. x) (e_chi element q t) (e_chi element q s)
               W eta deta ux uy uz vx vy vz t s K')"
      using Cons.prems by (intro allI jacobian_f_entry_diagonal) auto
    then show ?case using Cons.IH by simp
  qed
  have outer: "?P (fold (\<lambda>t K. fold (\<lambda>s K. jacobian_f_entry (\<lambda>x. x) (e_chi element q t)
                    (e_chi element q s) W eta deta ux uy uz vx vy vz t s K) [t ..< Nk] K) ts K')"
    if "?P K'" for ts K' W eta deta ux uy uz vx vy vz Nk
    using that
  proof (induction ts arbitrary: K')
    case Nil
    then show ?case by simp
  next
    case (Cons t ts)
    then show ?case using inner by simp
  qed
  have "?P K" using assms by simp
  then have "?P (jacobian_f_point (\<lambda>x. x) element velocity hardness effective_viscosity q K)"
    unfolding jacobian_f_point_def Let_def
    by (simp only: split_def) (rule outer)
  then show ?thesis by simp
qed

lemma jacobian_f_diagonal:
  assumes "\<And>n. K (n * 2) (n * 2 + 1) = K (n * 2 + 1) (n * 2)"
  shows "jacobian_f (\<lambda>x. x) element velocity hardness effective_viscosity K (n * 2) (n * 2 + 1) =
         jacobian_f (\<lambda>x. x) element velocity hardness effective_viscosity K (n * 2 + 1) (n * 2)"
proof -
  let ?P = "\<lambda>K :: LocalMatrix. \<forall>n. K (n * 2) (n * 2 + 1) = K (n * 2 + 1) (n * 2)"
  have "?P (fold (jacobian_f_point (\<lambda>x. x) element velocity hardness effective_viscosity) qs K')"
    if "?P K'" for qs K'
    using that
  proof (induction qs arbitrary: K')
    case Nil
    then show ?case by simp
  next
    case (Cons q qs)
    have "?P (jacobian_f_point (\<lambda>x. x) element velocity hardness effective_viscosity q K')"
      using Cons.prems by (intro allI jacobian_f_point_diagonal) simp
    then show ?case using Cons.IH by simp
  qed
  then show ?thesis
    using assms by (simp add: jacobian_f_def)
qed

lemma jacobian_basal_point_diagonal:
  assumes "\<And>n. K (n * 2) (n * 2 + 1) = K (n * 2 + 1) (n * 2)"
  shows "jacobian_basal_point (\<lambda>x. x) face tauc_nodal f_nodal velocity drag_with_derivative q K
           (n * 2) (n * 2 + 1) =
         jacobian_basal_point (\<lambda>x. x) face tauc_nodal f_nodal velocity drag_with_derivative q K
           (n * 2 + 1) (n * 2)"
proof -
  let ?P = "\<lambda>K :: LocalMatrix. \<forall>n. K (n * 2) (n * 2 + 1) = K (n * 2 + 1) (n * 2)"
  let ?step = "\<lambda>W beta dbeta (u :: Vector2) t s (K :: LocalMatrix).
      K_add (\<lambda>x. x) (K_add (\<lambda>x. x) (K_add (\<lambda>x. x) (K_add (\<lambda>x. x) K
        (t * 2 + 0) (s * 2 + 0) (W * (f_chi face q t * f_chi face q s) * (beta + dbeta * vec_u u * vec_u u)))
        (t * 2 + 0) (s * 2 + 1) (W * (f_chi face q t * f_chi face q s) * dbeta * vec_u u * vec_v u))
        (t * 2 + 1) (s * 2 + 0) (W * (f_chi face q t * f_chi face q s) * dbeta * vec_v u * vec_u u))
        (t * 2 + 1) (s * 2 + 1) (W * (f_chi face q t * f_chi face q s) * (beta + dbeta * vec_v u * vec_v u))"
  have step: "?P (?step W beta dbeta u t s K')" if "?P K'" for W beta dbeta u t s K'
  proof
    fix n
    show "?step W beta dbeta u t s K' (n * 2) (n * 2 + 1) =
          ?step W beta dbeta u t s K' (n * 2 + 1) (n * 2)"
      unfolding four_updates using that by (simp add: mult.commute mult.left_commute)
  qed
  have inner: "?P (fold (?step W beta dbeta u t) xs K')" if "?P K'" for W beta dbeta u t xs K'
    using that
  proof (induction xs arbitrary: K')
    case Nil
    then show ?case by simp
  next
    case (Cons s xs)
    have "?P (?step W beta dbeta u t s K')"
      using Cons.prems by (rule step)
    then show ?case using Cons.IH by simp
  qed
  have outer: "?P (fold (\<lambda>t. fold (?step W beta dbeta u t) xs) ts K')"
    if "?P K'" for W beta dbeta u xs ts K'
    using that
  proof (induction ts arbitrary: K')
    case Nil
    then show ?case by simp
  next
    case (Cons t ts)
    have "?P (fold (?step W beta dbeta u t) xs K')"
      using Cons.prems by (rule inner)
    then show ?case using Cons.IH by simp
  qed
  have "?P K" using assms by simp
  then have "?P (jacobian_basal_point (\<lambda>x. x) face tauc_nodal f_nodal velocity
                   drag_with_derivative q K)"
    unfolding jacobian_basal_point_def Let_def exact_ops
    by (simp only: split_def) (rule outer)
  then show ?thesis by simp
qed

lemma jacobian_basal_diagonal:
  assumes "\<And>n. K (n * 2) (n * 2 + 1) = K (n * 2 + 1) (n * 2)"
  shows "jacobian_basal (\<lambda>x. x) face tauc_nodal f_nodal velocity drag_with_derivative K
           (n * 2) (n * 2 + 1) =
         jacobian_basal (\<lambda>x. x) face tauc_nodal f_nodal velocity drag_with_derivative K
           (n * 2 + 1) (n * 2)"
proof -
  let ?P = "\<lambda>K :: LocalMatrix. \<forall>n. K (n * 2) (n * 2 + 1) = K (n * 2 + 1) (n * 2)"
  have "?P (fold (jacobian_basal_point (\<lambda>x. x) face tauc_nodal f_nodal velocity
                    drag_with_derivative) qs K')"
    if "?P K'" for qs K'
    using that
  proof (induction qs arbitrary: K')
    case Nil
    then show ?case by simp
  next
    case (Cons q qs)
    have "?P (jacobian_basal_point (\<lambda>x. x) face tauc_nodal f_nodal velocity
                drag_with_derivative q K')"
      using Cons.prems by (intro allI jacobian_basal_point_diagonal) simp
    then show ?case using Cons.IH by simp
  qed
  then show ?thesis
    using assms by (simp add: jacobian_basal_def)
qed

text \<open>The fill of the lower triangle.\<close>

lemma div2_cases:
  "(r = t * 2 + 0 \<or> r = t * 2 + 1) = (r div 2 = t)" for r t :: nat
  by presburger

lemma fill_block_apply:
  assumes "s < t"
  shows "fill_block t s K r c =
         (if r div 2 = t \<and> c div 2 = s then K c r else K r c)"
proof -
  have ne: "s * 2 + 0 \<noteq> t * 2 + 0" "s * 2 + 0 \<noteq> t * 2 + 1"
           "s * 2 + 1 \<noteq> t * 2 + 0" "s * 2 + 1 \<noteq> t * 2 + 1"
    using assms by presburger+
  consider (a) "r = t * 2 + 0" "c = s * 2 + 0" | (b) "r = t * 2 + 1" "c = s * 2 + 0"
    | (c) "r = t * 2 + 0" "c = s * 2 + 1" | (d) "r = t * 2 + 1" "c = s * 2 + 1"
    | (e) "\<not> (r div 2 = t \<and> c div 2 = s)"
    by (metis div2_cases)
  then show ?thesis
  proof cases
    case a
    then show ?thesis using ne by (simp add: fill_block_def Let_def K_set_apply)
  next
    case b
    then show ?thesis using ne by (simp add: fill_block_def Let_def K_set_apply)
  next
    case c
    then show ?thesis using ne by (simp add: fill_block_def Let_def K_set_apply)
  next
    case d
    then show ?thesis using ne by (simp add: fill_block_def Let_def K_set_apply)
  next
    case e
    then have "(r \<noteq> t * 2 + 0 \<and> r \<noteq> t * 2 + 1) \<or> (c \<noteq> s * 2 + 0 \<and> c \<noteq> s * 2 + 1)"
      by presburger
    then have "fill_block t s K r c = K r c"
      by (elim disjE conjE) (simp_all add: fill_block_def Let_def K_set_apply)
    then show ?thesis unfolding if_not_P[OF e] .
  qed
qed

lemma fill_row_apply:
  assumes "m \<le> t"
  shows "fold (fill_block t) [0 ..< m] K r c =
         (if r div 2 = t \<and> c div 2 < m then K c r else K r c)"
  using assms
proof (induction m arbitrary: r c)
  case 0
  then show ?case by simp
next
  case (Suc m)
  then have lt: "m < t" and le: "m \<le> t" by simp_all
  define K' where "K' = fold (fill_block t) [0 ..< m] K"
  have IH: "K' a b = (if a div 2 = t \<and> b div 2 < m then K b a else K a b)" for a b
    unfolding K'_def by (rule Suc.IH[OF le])
  have "fold (fill_block t) [0 ..< Suc m] K r c = fill_block t m K' r c"
    by (simp add: K'_def)
  also have "\<dots> = (if r div 2 = t \<and> c div 2 = m then K' c r else K' r c)"
    by (rule fill_block_apply[OF lt])
  also have "\<dots> = (if r div 2 = t \<and> c div 2 < Suc m then K c r else K r c)"
    using lt by (auto simp add: IH less_Suc_eq)
  finally show ?case .
qed

lemma fill_rows_apply:
  "fold (\<lambda>t. fold (fill_block t) [0 ..< t]) [0 ..< m] K r c =
   (if r div 2 < m \<and> c div 2 < r div 2 then K c r else K r c)"
proof (induction m arbitrary: r c)
  case 0
  then show ?case by simp
next
  case (Suc m)
  define K' where "K' = fold (\<lambda>t. fold (fill_block t) [0 ..< t]) [0 ..< m] K"
  have IH: "K' a b = (if a div 2 < m \<and> b div 2 < a div 2 then K b a else K a b)" for a b
    unfolding K'_def by (rule Suc.IH)
  have "fold (\<lambda>t. fold (fill_block t) [0 ..< t]) [0 ..< Suc m] K r c =
        fold (fill_block m) [0 ..< m] K' r c"
    by (simp add: K'_def)
  also have "\<dots> = (if r div 2 = m \<and> c div 2 < m then K' c r else K' r c)"
    by (rule fill_row_apply) simp
  also have "\<dots> = (if r div 2 < Suc m \<and> c div 2 < r div 2 then K c r else K r c)"
    by (auto simp add: IH less_Suc_eq)
  finally show ?case .
qed

lemma fill_lower_triangle_apply:
  "fill_lower_triangle K r c =
   (if r div 2 < 8 \<and> c div 2 < r div 2 then K c r else K r c)"
  unfolding fill_lower_triangle_def q13d_n_chi_def by (rule fill_rows_apply)

lemma fill_lower_triangle_blocks:
  assumes "r < 16" and "c < 16" and "r div 2 \<noteq> c div 2"
  shows "fill_lower_triangle K r c = fill_lower_triangle K c r"
proof -
  have b: "r div 2 < 8" "c div 2 < 8"
    using assms(1,2) by arith+
  consider (lt) "r div 2 < c div 2" | (gt) "c div 2 < r div 2"
    using assms(3) by linarith
  then show ?thesis
  proof cases
    case lt
    then show ?thesis using b by (simp add: fill_lower_triangle_apply)
  next
    case gt
    then show ?thesis using b by (simp add: fill_lower_triangle_apply)
  qed
qed

lemma fill_lower_triangle_symmetric:
  assumes "\<And>n. K (n * 2) (n * 2 + 1) = K (n * 2 + 1) (n * 2)"
    and "r < 16" and "c < 16"
  shows "fill_lower_triangle K r c = fill_lower_triangle K c r"
proof (cases "r div 2 = c div 2")
  case False
  show ?thesis by (rule fill_lower_triangle_blocks[OF assms(2,3) False])
next
  case eq: True
  define n where "n = r div 2"
  have "r = c \<or> (r = n * 2 \<and> c = n * 2 + 1) \<or> (r = n * 2 + 1 \<and> c = n * 2)"
    using eq unfolding n_def by presburger
  then show ?thesis
    using assms(1)[of n] eq by (auto simp add: fill_lower_triangle_apply)
qed

text \<open>
  An entry of a diagonal block gets the contributions of one pair of shape functions
  only: \<open>t = s = n\<close>.
\<close>

lemma fold_untouched:
  assumes "\<And>x K. x \<in> set xs \<Longrightarrow> f x K r c = (K :: LocalMatrix) r c"
  shows "fold f xs K r c = K r c"
  using assms by (induction xs arbitrary: K) simp_all

lemma fold_single:
  assumes "distinct xs" and "n \<in> set xs"
    and "\<And>x K. x \<in> set xs \<Longrightarrow> x \<noteq> n \<Longrightarrow> f x K r c = (K :: LocalMatrix) r c"
    and "\<And>K1 K2. K1 r c = K2 r c \<Longrightarrow> f n K1 r c = f n K2 r c"
  shows "fold f xs K r c = f n K r c"
  using assms(1,2,3)
proof (induction xs arbitrary: K)
  case Nil
  then show ?case by simp
next
  case (Cons x xs)
  show ?case
  proof (cases "x = n")
    case True
    then have "n \<notin> set xs" using Cons.prems(1) by simp
    then have "fold f xs (f n K) r c = f n K r c"
      using Cons.prems(3) by (intro fold_untouched) auto
    then show ?thesis using True by simp
  next
    case False
    then have n: "n \<in> set xs" using Cons.prems(2) by simp
    have "fold f xs (f x K) r c = f n (f x K) r c"
      using Cons.prems n by (intro Cons.IH) auto
    also have "\<dots> = f n K r c"
      using Cons.prems(3)[of x K] False by (intro assms(4)) simp
    finally show ?thesis by simp
  qed
qed

lemma jacobian_f_entry_other:
  assumes "\<not> (n = t \<and> n = s)"
  shows "jacobian_f_entry rnd psi phi W eta deta ux uy uz vx vy vz t s K (n * 2) (n * 2 + 1) =
           K (n * 2) (n * 2 + 1)"
    and "jacobian_f_entry rnd psi phi W eta deta ux uy uz vx vy vz t s K (n * 2 + 1) (n * 2) =
           K (n * 2 + 1) (n * 2)"
  unfolding jacobian_f_entry_def Let_def eight_updates if_not_P[OF assms] by (rule refl)+

lemma jacobian_f_entry_depends:
  assumes "K r c = K' r c"
    and "(r, c) = (n * 2, n * 2 + 1) \<or> (r, c) = (n * 2 + 1, n * 2)"
  shows "jacobian_f_entry rnd psi phi W eta deta ux uy uz vx vy vz t s K r c =
         jacobian_f_entry rnd psi phi W eta deta ux uy uz vx vy vz t s K' r c"
proof -
  consider (a) "r = n * 2" "c = n * 2 + 1" | (b) "r = n * 2 + 1" "c = n * 2"
    using assms(2) by auto
  then show ?thesis
  proof cases
    case a
    have e: "K (n * 2) (n * 2 + 1) = K' (n * 2) (n * 2 + 1)"
      using assms(1) unfolding a .
    show ?thesis
      unfolding a jacobian_f_entry_def Let_def eight_updates e by (rule refl)
  next
    case b
    have e: "K (n * 2 + 1) (n * 2) = K' (n * 2 + 1) (n * 2)"
      using assms(1) unfolding b .
    show ?thesis
      unfolding b jacobian_f_entry_def Let_def eight_updates e by (rule refl)
  qed
qed

lemma jacobian_f_folds_diagonal:
  assumes "n < Nk" and "(r, c) = (n * 2, n * 2 + 1) \<or> (r, c) = (n * 2 + 1, n * 2)"
  shows "fold (\<lambda>t K. fold (\<lambda>s K. jacobian_f_entry rnd (chi t) (chi s)
                  W eta deta ux uy uz vx vy vz t s K) [t ..< Nk] K) [0 ..< Nk] K r c =
         jacobian_f_entry rnd (chi n) (chi n) W eta deta ux uy uz vx vy vz n n K r c"
proof -
  let ?e = "\<lambda>t s K. jacobian_f_entry rnd (chi t) (chi s) W eta deta ux uy uz vx vy vz t s K"
  have other: "?e t s K1 r c = K1 r c" if "\<not> (n = t \<and> n = s)" for t s K1
    using assms(2) jacobian_f_entry_other[OF that] by auto
  have dep: "?e t s K1 r c = ?e t s K2 r c" if "K1 r c = K2 r c" for t s K1 K2
    using that assms(2) by (rule jacobian_f_entry_depends)
  have row: "fold (?e n) [n ..< Nk] K1 r c = ?e n n K1 r c" for K1
  proof (rule fold_single)
    show "distinct [n ..< Nk]" by simp
    show "n \<in> set [n ..< Nk]" using assms(1) by simp
    show "?e n x K2 r c = K2 r c" if "x \<noteq> n" for x K2
      using that by (intro other) auto
    show "?e n n K2 r c = ?e n n K3 r c" if "K2 r c = K3 r c" for K2 K3
      using that by (rule dep)
  qed
  have "fold (\<lambda>t. fold (?e t) [t ..< Nk]) [0 ..< Nk] K r c = fold (?e n) [n ..< Nk] K r c"
  proof (rule fold_single)
    show "distinct [0 ..< Nk]" by simp
    show "n \<in> set [0 ..< Nk]" using assms(1) by simp
    show "fold (?e x) [x ..< Nk] K2 r c = K2 r c" if "x \<noteq> n" for x K2
      using that by (intro fold_untouched other) auto
    show "fold (?e n) [n ..< Nk] K2 r c = fold (?e n) [n ..< Nk] K3 r c"
      if "K2 r c = K3 r c" for K2 K3
      unfolding row using that by (rule dep)
  qed
  then show ?thesis unfolding row .
qed

lemma jacobian_f_point_diagonal_entry:
  assumes "n < 8" and "(r, c) = (n * 2, n * 2 + 1) \<or> (r, c) = (n * 2 + 1, n * 2)"
    and "e_evaluate_vec element velocity q = (u, u_x, u_y, u_z)"
    and "\<And>gamma. effective_viscosity (e_evaluate element hardness q) gamma = (eta, deta)"
  shows "jacobian_f_point rnd element velocity hardness effective_viscosity q K r c =
         jacobian_f_entry rnd (e_chi element q n) (e_chi element q n) (e_weight element q)
           eta deta (vec_u u_x) (vec_u u_y) (vec_u u_z) (vec_v u_x) (vec_v u_y) (vec_v u_z)
           n n K r c"
  unfolding jacobian_f_point_def Let_def assms(3) assms(4) prod.case q13d_n_chi_def
  using assms(1,2) by (rule jacobian_f_folds_diagonal)

text \<open>The rounding of the machine, evaluated on numbers.\<close>

lemma scale_exponent_numeral:
  "scale_exponent (numeral n) x e =
     (if 2 ^ 53 \<le> x then scale_exponent (pred_numeral n) (x / 2) (e + 1)
      else if x < 2 ^ 52 \<and> - 1074 < e then scale_exponent (pred_numeral n) (x * 2) (e - 1)
      else e)"
  by (simp add: numeral_eq_Suc)

lemmas binary64_eval = fadd_def fmul_def binary64_def scale_exponent_numeral pow2_def
  round_half_even_def Let_def

lemma binary64_tenth: "binary64 (1 / 10) = 3602879701896397 / 36028797018963968"
  by (simp add: binary64_eval)

lemma diagonal_block_upper:
  "jacobian_f_entry binary64
     \<lparr> val = 0, g_dx = binary64 (1 / 10), g_dy = 1, g_dz = 0 \<rparr>
     \<lparr> val = 0, g_dx = binary64 (1 / 10), g_dy = 1, g_dz = 0 \<rparr>
     1 1 1 (binary64 (1 / 10)) 0 0 0 1 0 0 0 (\<lambda>r c. 0) (0 * 2) (0 * 2 + 1) =
   7241788200811758 / 2 ^ 53"
  unfolding jacobian_f_entry_def Let_def eight_updates
  by (simp add: binary64_eval)

lemma diagonal_block_lower:
  "jacobian_f_entry binary64
     \<lparr> val = 0, g_dx = binary64 (1 / 10), g_dy = 1, g_dz = 0 \<rparr>
     \<lparr> val = 0, g_dx = binary64 (1 / 10), g_dy = 1, g_dz = 0 \<rparr>
     1 1 1 (binary64 (1 / 10)) 0 0 0 1 0 0 0 (\<lambda>r c. 0) (0 * 2 + 1) (0 * 2) =
   7241788200811759 / 2 ^ 53"
  unfolding jacobian_f_entry_def Let_def eight_updates
  by (simp add: binary64_eval)

text \<open>
  C4, as stated, fails in the arithmetic of the machine. The fill copies the blocks
  above the diagonal to the blocks below it; it does not touch the 2 by 2 blocks on the
  diagonal, whose entries \<open>K[2n][2n+1]\<close> and \<open>K[2n+1][2n]\<close> the two functions compute by
  different expressions. Here the element (above the base, \<open>k = 1\<close>) has one quadrature
  point of weight 1, the derivatives of the shape functions are \<open>(0.1, 1, 0)\<close>, of the
  derivatives of the velocity \<open>u_x = 0.1\<close> and \<open>v_y = 1\<close> and the others are 0, and the flow
  law gives the viscosity 1 with the derivative 1. Then
  \<open>K[0][1] = 7241788200811758 / 2\<^sup>5\<^sup>3\<close> (\<open>0.804\<close>) and
  \<open>K[1][0] = 7241788200811759 / 2\<^sup>5\<^sup>3\<close> (\<open>0.8040000000000002\<close>).
\<close>

theorem diagonal_block_rounding:
  "(0::nat) < 16 \<and> (1::nat) < 16 \<and>
   element_jacobian binary64
     \<lparr> e_n_pts = 1, e_weight = (\<lambda>q. 1),
       e_chi = (\<lambda>q t. \<lparr> val = 0, g_dx = binary64 (1 / 10), g_dy = 1, g_dz = 0 \<rparr>),
       e_evaluate_vec = (\<lambda>w q. (\<lparr> vec_u = 0, vec_v = 0 \<rparr>,
                                 \<lparr> vec_u = binary64 (1 / 10), vec_v = 0 \<rparr>,
                                 \<lparr> vec_u = 0, vec_v = 1 \<rparr>,
                                 \<lparr> vec_u = 0, vec_v = 0 \<rparr>)),
       e_evaluate = (\<lambda>w q. 1) \<rparr>
     \<lparr> f_n_pts = 4, f_weight = (\<lambda>q. 1), f_chi = (\<lambda>q t. 1),
       f_evaluate_vec = (\<lambda>w q. w q), f_evaluate = (\<lambda>w q. w q) \<rparr>
     (\<lambda>n. \<lparr> vec_u = 0, vec_v = 0 \<rparr>) (\<lambda>n. 1) (\<lambda>n. 1) (\<lambda>n. - 1)
     (\<lambda>B gamma. (1, 1)) (\<lambda>tauc a b. (0, 0)) 1 0 1 = 7241788200811758 / 2 ^ 53 \<and>
   element_jacobian binary64
     \<lparr> e_n_pts = 1, e_weight = (\<lambda>q. 1),
       e_chi = (\<lambda>q t. \<lparr> val = 0, g_dx = binary64 (1 / 10), g_dy = 1, g_dz = 0 \<rparr>),
       e_evaluate_vec = (\<lambda>w q. (\<lparr> vec_u = 0, vec_v = 0 \<rparr>,
                                 \<lparr> vec_u = binary64 (1 / 10), vec_v = 0 \<rparr>,
                                 \<lparr> vec_u = 0, vec_v = 1 \<rparr>,
                                 \<lparr> vec_u = 0, vec_v = 0 \<rparr>)),
       e_evaluate = (\<lambda>w q. 1) \<rparr>
     \<lparr> f_n_pts = 4, f_weight = (\<lambda>q. 1), f_chi = (\<lambda>q t. 1),
       f_evaluate_vec = (\<lambda>w q. w q), f_evaluate = (\<lambda>w q. w q) \<rparr>
     (\<lambda>n. \<lparr> vec_u = 0, vec_v = 0 \<rparr>) (\<lambda>n. 1) (\<lambda>n. 1) (\<lambda>n. - 1)
     (\<lambda>B gamma. (1, 1)) (\<lambda>tauc a b. (0, 0)) 1 1 0 = 7241788200811759 / 2 ^ 53"
proof -
  define psi :: Germ3 where "psi = \<lparr> val = 0, g_dx = binary64 (1 / 10), g_dy = 1, g_dz = 0 \<rparr>"
  define E where "E = \<lparr> e_n_pts = 1, e_weight = (\<lambda>q. 1 :: real),
       e_chi = (\<lambda>(q :: nat) (t :: nat). psi),
       e_evaluate_vec = (\<lambda>(w :: nat \<Rightarrow> Vector2) (q :: nat).
                                (\<lparr> vec_u = 0, vec_v = 0 \<rparr>,
                                 \<lparr> vec_u = binary64 (1 / 10), vec_v = 0 \<rparr>,
                                 \<lparr> vec_u = 0, vec_v = 1 \<rparr>,
                                 \<lparr> vec_u = 0, vec_v = 0 \<rparr>)),
       e_evaluate = (\<lambda>(w :: nat \<Rightarrow> real) (q :: nat). 1 :: real) \<rparr>"
  define visc where "visc = (\<lambda>(B :: real) (gamma :: real). (1 :: real, 1 :: real))"
  define K0 :: LocalMatrix where "K0 = (\<lambda>r c. 0)"
  have point: "jacobian_f_point binary64 E vel B visc 0 K0 r c =
      jacobian_f_entry binary64 psi psi 1 1 1 (binary64 (1 / 10)) 0 0 0 1 0 0 0 K0 r c"
    if "(r, c) = (0 * 2, 0 * 2 + 1) \<or> (r, c) = (0 * 2 + 1, 0 * 2)" for vel B r c
  proof -
    have n: "(0::nat) < 8" by simp
    have ev: "e_evaluate_vec E vel 0 = (\<lparr> vec_u = 0, vec_v = 0 \<rparr>,
                                 \<lparr> vec_u = binary64 (1 / 10), vec_v = 0 \<rparr>,
                                 \<lparr> vec_u = 0, vec_v = 1 \<rparr>,
                                 \<lparr> vec_u = 0, vec_v = 0 \<rparr>)"
      by (simp add: E_def)
    have vi: "visc (e_evaluate E B 0) gamma = (1, 1)" for gamma
      by (simp add: visc_def)
    show ?thesis
      using jacobian_f_point_diagonal_entry[where n = 0 and r = r and c = c and element = E
          and velocity = vel and q = 0 and hardness = B and effective_viscosity = visc
          and eta = 1 and deta = 1 and rnd = binary64 and K = K0, OF n that ev vi]
      by (simp add: E_def)
  qed
  have f: "jacobian_f binary64 E vel B visc K0 = jacobian_f_point binary64 E vel B visc 0 K0"
    for vel B
    by (simp add: jacobian_f_def E_def)
  have fill: "fill_lower_triangle K 0 1 = K 0 1" "fill_lower_triangle K 1 0 = K 1 0"
    for K :: LocalMatrix
    by (simp_all add: fill_lower_triangle_apply)
  have J: "element_jacobian binary64 E face vel B tauc fl visc drag 1 r c =
           jacobian_f_point binary64 E vel B visc 0 K0 r c"
    if "(r, c) = (0, 1) \<or> (r, c) = (1, 0)" for face vel B tauc fl drag r c
    using that fill by (auto simp add: element_jacobian_def Let_def f K0_def[symmetric])
  have u: "element_jacobian binary64 E face vel B tauc fl visc drag 1 0 1 =
           7241788200811758 / 2 ^ 53" for face vel B tauc fl drag
    using J[of 0 1] point[of "0 * 2" "0 * 2 + 1"] diagonal_block_upper
    by (simp add: psi_def K0_def)
  have l: "element_jacobian binary64 E face vel B tauc fl visc drag 1 1 0 =
           7241788200811759 / 2 ^ 53" for face vel B tauc fl drag
    using J[of 1 0] point[of "0 * 2 + 1" "0 * 2"] diagonal_block_lower
    by (simp add: psi_def K0_def)
  show ?thesis
    using u l unfolding E_def psi_def visc_def by simp
qed

text \<open>
  C4, amended. For every element, face, nodal data, flow law and sliding law, and at
  every level \<open>k\<close> (with the basal contribution when \<open>k = 0\<close>), the matrix after the fill
  of the lower triangle satisfies \<open>K[s][t] = K[t][s]\<close> for all \<open>s, t < 16\<close> that belong to
  different nodes (\<open>s div 2 \<noteq> t div 2\<close>), whatever the rounding of the arithmetic is: this
  is the fill. For all \<open>s, t < 16\<close>, the 2 by 2 diagonal blocks included, it holds in
  exact arithmetic: the two off-diagonal entries of a diagonal block are computed by
  different expressions that are equal as real numbers.
\<close>

theorem element_jacobian_symmetric:
  assumes "s < 16" and "t < 16"
  shows "(s div 2 \<noteq> t div 2 \<longrightarrow>
            element_jacobian rnd element face velocity B_nodal basal_yield_stress floatation
              effective_viscosity drag_with_derivative k s t =
            element_jacobian rnd element face velocity B_nodal basal_yield_stress floatation
              effective_viscosity drag_with_derivative k t s) \<and>
         element_jacobian (\<lambda>x. x) element face velocity B_nodal basal_yield_stress floatation
           effective_viscosity drag_with_derivative k s t =
         element_jacobian (\<lambda>x. x) element face velocity B_nodal basal_yield_stress floatation
           effective_viscosity drag_with_derivative k t s"
proof (intro conjI impI)
  assume d: "s div 2 \<noteq> t div 2"
  obtain K where K: "element_jacobian rnd element face velocity B_nodal basal_yield_stress
      floatation effective_viscosity drag_with_derivative k = fill_lower_triangle K"
    by (simp add: element_jacobian_def Let_def)
  show "element_jacobian rnd element face velocity B_nodal basal_yield_stress floatation
          effective_viscosity drag_with_derivative k s t =
        element_jacobian rnd element face velocity B_nodal basal_yield_stress floatation
          effective_viscosity drag_with_derivative k t s"
    unfolding K by (rule fill_lower_triangle_blocks[OF assms d])
next
  define K1 where "K1 = jacobian_f (\<lambda>x. x) element velocity B_nodal effective_viscosity (\<lambda>r c. 0)"
  define K2 where "K2 = (if k = 0
       then jacobian_basal (\<lambda>x. x) face basal_yield_stress floatation velocity
              drag_with_derivative K1
       else K1)"
  have d1: "K1 (n * 2) (n * 2 + 1) = K1 (n * 2 + 1) (n * 2)" for n
    unfolding K1_def by (rule jacobian_f_diagonal) simp
  have d2: "K2 (n * 2) (n * 2 + 1) = K2 (n * 2 + 1) (n * 2)" for n
    unfolding K2_def using d1 jacobian_basal_diagonal[of K1] by simp
  have "element_jacobian (\<lambda>x. x) element face velocity B_nodal basal_yield_stress floatation
           effective_viscosity drag_with_derivative k = fill_lower_triangle K2"
    by (simp add: element_jacobian_def Let_def K1_def K2_def)
  then show "element_jacobian (\<lambda>x. x) element face velocity B_nodal basal_yield_stress
           floatation effective_viscosity drag_with_derivative k s t =
         element_jacobian (\<lambda>x. x) element face velocity B_nodal basal_yield_stress
           floatation effective_viscosity drag_with_derivative k t s"
    using fill_lower_triangle_symmetric[of K2 s t] d2 assms by simp
qed

theorem element_jacobian_symmetric_witness:
  "(3::nat) < 16 \<and> (12::nat) < 16 \<and> (3::nat) div 2 \<noteq> 12 div 2 \<and>
   element_jacobian binary64
     \<lparr> e_n_pts = 8, e_weight = (\<lambda>q. 1),
       e_chi = (\<lambda>q t. \<lparr> val = 1, g_dx = real t, g_dy = 2, g_dz = real q \<rparr>),
       e_evaluate_vec = (\<lambda>w q. (w 0, w 1, w 2, w 3)),
       e_evaluate = (\<lambda>w q. w q) \<rparr>
     \<lparr> f_n_pts = 4, f_weight = (\<lambda>q. 1), f_chi = (\<lambda>q t. real (q + t)),
       f_evaluate_vec = (\<lambda>w q. w q), f_evaluate = (\<lambda>w q. w q) \<rparr>
     (\<lambda>n. \<lparr> vec_u = real n, vec_v = 1 \<rparr>) (\<lambda>n. 1) (\<lambda>n. 1) (\<lambda>n. - 1)
     (\<lambda>B gamma. (B, gamma)) (\<lambda>tauc a b. (tauc, a + b)) 0 3 12 =
   element_jacobian binary64
     \<lparr> e_n_pts = 8, e_weight = (\<lambda>q. 1),
       e_chi = (\<lambda>q t. \<lparr> val = 1, g_dx = real t, g_dy = 2, g_dz = real q \<rparr>),
       e_evaluate_vec = (\<lambda>w q. (w 0, w 1, w 2, w 3)),
       e_evaluate = (\<lambda>w q. w q) \<rparr>
     \<lparr> f_n_pts = 4, f_weight = (\<lambda>q. 1), f_chi = (\<lambda>q t. real (q + t)),
       f_evaluate_vec = (\<lambda>w q. w q), f_evaluate = (\<lambda>w q. w q) \<rparr>
     (\<lambda>n. \<lparr> vec_u = real n, vec_v = 1 \<rparr>) (\<lambda>n. 1) (\<lambda>n. 1) (\<lambda>n. - 1)
     (\<lambda>B gamma. (B, gamma)) (\<lambda>tauc a b. (tauc, a + b)) 0 12 3 \<and>
   element_jacobian (\<lambda>x. x)
     \<lparr> e_n_pts = 8, e_weight = (\<lambda>q. 1),
       e_chi = (\<lambda>q t. \<lparr> val = 1, g_dx = real t, g_dy = 2, g_dz = real q \<rparr>),
       e_evaluate_vec = (\<lambda>w q. (w 0, w 1, w 2, w 3)),
       e_evaluate = (\<lambda>w q. w q) \<rparr>
     \<lparr> f_n_pts = 4, f_weight = (\<lambda>q. 1), f_chi = (\<lambda>q t. real (q + t)),
       f_evaluate_vec = (\<lambda>w q. w q), f_evaluate = (\<lambda>w q. w q) \<rparr>
     (\<lambda>n. \<lparr> vec_u = real n, vec_v = 1 \<rparr>) (\<lambda>n. 1) (\<lambda>n. 1) (\<lambda>n. - 1)
     (\<lambda>B gamma. (B, gamma)) (\<lambda>tauc a b. (tauc, a + b)) 0 3 12 =
   element_jacobian (\<lambda>x. x)
     \<lparr> e_n_pts = 8, e_weight = (\<lambda>q. 1),
       e_chi = (\<lambda>q t. \<lparr> val = 1, g_dx = real t, g_dy = 2, g_dz = real q \<rparr>),
       e_evaluate_vec = (\<lambda>w q. (w 0, w 1, w 2, w 3)),
       e_evaluate = (\<lambda>w q. w q) \<rparr>
     \<lparr> f_n_pts = 4, f_weight = (\<lambda>q. 1), f_chi = (\<lambda>q t. real (q + t)),
       f_evaluate_vec = (\<lambda>w q. w q), f_evaluate = (\<lambda>w q. w q) \<rparr>
     (\<lambda>n. \<lparr> vec_u = real n, vec_v = 1 \<rparr>) (\<lambda>n. 1) (\<lambda>n. 1) (\<lambda>n. - 1)
     (\<lambda>B gamma. (B, gamma)) (\<lambda>tauc a b. (tauc, a + b)) 0 12 3"
proof -
  have h: "(3::nat) < 16" "(12::nat) < 16" "(3::nat) div 2 \<noteq> 12 div 2"
    by simp_all
  from element_jacobian_symmetric[OF h(1,2), of binary64] h show ?thesis
    by blast
qed
end
